theory Spec2Isabelle
  imports Main "HOL-Library.Word"
begin

section \<open>JavaScript strings and JSON values\<close>

text \<open>
  A JavaScript string is a sequence of UTF-16 code units; \<open>length\<close>, \<open>trim\<close>,
  \<open>includes\<close>, \<open>split\<close> and the regular expressions of the handlers all work on
  code units. Program literals are ASCII and are written through \<open>js\<close>.
\<close>

type_synonym jschar = "16 word"
type_synonym jsstring = "jschar list"

definition js :: "string \<Rightarrow> jsstring" where
  "js s = map (\<lambda>c. of_nat (of_char c)) s"

text \<open>
  The characters removed by \<open>String.prototype.trim\<close> and matched by \<open>\s\<close>:
  the WhiteSpace and LineTerminator productions of ECMAScript.
\<close>

definition isWhiteSpace :: "jschar \<Rightarrow> bool" where
  "isWhiteSpace c \<longleftrightarrow>
     c = 0x9 \<or> c = 0xA \<or> c = 0xB \<or> c = 0xC \<or> c = 0xD \<or> c = 0x20 \<or> c = 0xA0 \<or>
     c = 0x1680 \<or> (0x2000 \<le> c \<and> c \<le> 0x200A) \<or> c = 0x2028 \<or> c = 0x2029 \<or>
     c = 0x202F \<or> c = 0x205F \<or> c = 0x3000 \<or> c = 0xFEFF"

definition trim :: "jsstring \<Rightarrow> jsstring" where
  "trim s = rev (dropWhile isWhiteSpace (rev (dropWhile isWhiteSpace s)))"

text \<open>The character class \<open>[a-zA-Z]\<close>.\<close>

definition isLetter :: "jschar \<Rightarrow> bool" where
  "isLetter c \<longleftrightarrow> (0x61 \<le> c \<and> c \<le> 0x7A) \<or> (0x41 \<le> c \<and> c \<le> 0x5A)"

text \<open>\<open>/^[a-zA-Z]+$/.test(s)\<close>: no flags, so \<open>$\<close> is the end of the input.\<close>

definition lettersOnly :: "jsstring \<Rightarrow> bool" where
  "lettersOnly s \<longleftrightarrow> s \<noteq> [] \<and> list_all isLetter s"

text \<open>
  \<open>String.prototype.toLowerCase\<close> on the code units of a word that passed
  \<open>lettersOnly\<close>; the handler applies it to nothing else.
\<close>

definition toLowerCase :: "jsstring \<Rightarrow> jsstring" where
  "toLowerCase s = map (\<lambda>c. if 0x41 \<le> c \<and> c \<le> 0x5A then c + 0x20 else c) s"

text \<open>\<open>s.split(sep)\<close> for a one-character separator; the result is never empty.\<close>

fun split :: "jschar \<Rightarrow> jsstring \<Rightarrow> jsstring list" where
  "split sep [] = [[]]"
| "split sep (c # cs) =
     (if c = sep then [] # split sep cs
      else (case split sep cs of [] \<Rightarrow> [[c]] | l # ls \<Rightarrow> (c # l) # ls))"

definition startsWith :: "jsstring \<Rightarrow> jsstring \<Rightarrow> bool" where
  "startsWith s pat \<longleftrightarrow> take (length pat) s = pat"

text \<open>\<open>s.includes(pat)\<close>.\<close>

fun includes_js :: "jsstring \<Rightarrow> jsstring \<Rightarrow> bool" where
  "includes_js [] pat = (pat = [])"
| "includes_js (c # cs) pat = (startsWith (c # cs) pat \<or> includes_js cs pat)"

text \<open>\<open>s.replace(pat, '')\<close> with a string pattern: the first occurrence is removed.\<close>

fun removeFirst :: "jsstring \<Rightarrow> jsstring \<Rightarrow> jsstring" where
  "removeFirst pat [] = []"
| "removeFirst pat (c # cs) =
     (if startsWith (c # cs) pat then drop (length pat) (c # cs)
      else c # removeFirst pat cs)"

text \<open>\<open>const token = authHeader.replace('Bearer ', '')\<close>.\<close>

definition bearerToken :: "jsstring \<Rightarrow> jsstring" where
  "bearerToken authHeader = removeFirst (js ''Bearer '') authHeader"

text \<open>
  The values a parsed JSON body can hold, with \<open>undefined\<close> for an absent
  property. Only the truthiness and the type of a number are ever inspected, so
  numbers are kept as integers. In an object a later duplicate key wins.
\<close>

datatype json =
    JUndefined
  | JNull
  | JBool bool
  | JNum int
  | JStr jsstring
  | JArr "json list"
  | JObj "(jsstring \<times> json) list"

fun truthy :: "json \<Rightarrow> bool" where
  "truthy JUndefined = False"
| "truthy JNull = False"
| "truthy (JBool b) = b"
| "truthy (JNum n) = (n \<noteq> 0)"
| "truthy (JStr s) = (s \<noteq> [])"
| "truthy (JArr xs) = True"
| "truthy (JObj kvs) = True"

text \<open>
  Destructuring \<open>const { k } = req.body\<close>: a TypeError (\<open>None\<close>) on
  \<open>undefined\<close> and \<open>null\<close>, \<open>undefined\<close> on a value without the property.
\<close>

fun getProp :: "json \<Rightarrow> jsstring \<Rightarrow> json option" where
  "getProp JUndefined k = None"
| "getProp JNull k = None"
| "getProp (JObj kvs) k =
     Some (case map_of (rev kvs) k of None \<Rightarrow> JUndefined | Some v \<Rightarrow> v)"
| "getProp v k = Some JUndefined"

section \<open>Requests and responses\<close>

record request =
  req_method :: jsstring
  authorization :: "jsstring option"
  body :: json

record db_error =
  code :: jsstring
  message :: jsstring
  details :: jsstring
  hint :: jsstring

text \<open>
  One row of the \<open>blogs\<close> table, as the handlers write it. The columns the
  database fills in by itself (\<open>id\<close>, \<open>created_at\<close>) are left out, and the
  tags are kept as they are sent: what the \<open>text[]\<close> column makes of a tag
  that is not a string is not modelled.
\<close>

record blog =
  title :: jsstring
  slug :: jsstring
  content_md :: jsstring
  content_html :: jsstring
  tags :: "json list"
  user_id :: "jsstring option"

text \<open>What a handler can throw into its \<open>catch\<close> block.\<close>

datatype exn =
    ThrownByGetUser
  | ApiKeyNotConfigured
  | FetchFailed
  | ApiError nat jsstring
  | InvalidJson
  | InvalidResponse
  | NotAString
  | SlugifyArgument
  | MarkedArgument

datatype payload =
    Message string
  | MessageError string jsstring
  | MessageThrown string exn
  | MessageDb string jsstring jsstring jsstring
  | Blog blog

record response =
  status :: nat
  json :: payload

section \<open>The word validator (generate.ts, lines 14 to 41)\<close>

definition badRequest :: "string \<Rightarrow> response" where
  "badRequest m = \<lparr>status = 400, json = Message m\<rparr>"

definition validateWord :: "json \<Rightarrow> response + jsstring" where
  "validateWord word =
     (case word of
        JStr s \<Rightarrow>
          if s = [] then Inl (badRequest ''Word is required'')
          else
            let trimmedWord = trim s in
            if trimmedWord = [] then Inl (badRequest ''Word cannot be empty'')
            else if includes_js trimmedWord (js '' '') then
              Inl (badRequest ''Please enter only ONE word (no spaces allowed)'')
            else if \<not> lettersOnly trimmedWord then
              Inl (badRequest
                ''Please enter only letters (no numbers or special characters)'')
            else if length trimmedWord < 2 then
              Inl (badRequest ''Word must be at least 2 characters long'')
            else if length trimmedWord > 20 then
              Inl (badRequest ''Word must be less than 20 characters long'')
            else Inr trimmedWord
      | _ \<Rightarrow> Inl (badRequest ''Word is required''))"

section \<open>External collaborators\<close>

text \<open>
  The identity service, the completion endpoint, the two libraries and the
  failures of the database are outside the repository. A handler run is a
  function of what they answer.
\<close>

datatype auth_reply =
    AuthUser jsstring
  | AuthError jsstring
  | AuthNoUser
  | AuthThrows

datatype completion =
    NoReply
  | NotOk nat jsstring
  | NotJson
  | NoMessage
  | MessageContent json

record services =
  getUser :: "jsstring \<Rightarrow> auth_reply"
  apiKey :: "jsstring option"
  completions :: "jsstring \<Rightarrow> completion"
  slugify :: "jsstring \<Rightarrow> jsstring"
  marked :: "jsstring \<Rightarrow> jsstring"
  selectFails :: bool
  insertError :: "db_error option"
  retryError :: "db_error option"

text \<open>The external calls a run makes, in order.\<close>

datatype call =
    GetUser jsstring
  | Fetch jsstring
  | SelectLike jsstring
  | Insert blog

type_synonym db = "blog list"

text \<open>
  The outcome of a run: the response sent (\<open>None\<close> when the handler throws
  outside its \<open>try\<close>), the table afterwards and the external calls made.
\<close>

record result =
  reply :: "response option"
  table :: db
  calls :: "call list"

definition respond :: "nat \<Rightarrow> payload \<Rightarrow> db \<Rightarrow> call list \<Rightarrow> result" where
  "respond st p tbl cs = \<lparr>reply = Some \<lparr>status = st, json = p\<rparr>, table = tbl, calls = cs\<rparr>"

section \<open>The blogs table\<close>

text \<open>
  \<open>slug text unique not null\<close> (supabase.sql): an insert of a slug that is
  already stored fails with PostgreSQL's unique violation. Any other failure
  is the environment's (\<open>fault\<close>).
\<close>

definition uniqueViolation :: db_error where
  "uniqueViolation =
     \<lparr>code = js ''23505'',
      message = js ''duplicate key value violates unique constraint'',
      details = [], hint = []\<rparr>"

definition insertRow :: "db_error option \<Rightarrow> blog \<Rightarrow> db \<Rightarrow> (db_error + blog) \<times> db" where
  "insertRow fault row tbl =
     (case fault of
        Some e \<Rightarrow> (Inl e, tbl)
      | None \<Rightarrow>
          if slug row \<in> set (map slug tbl) then (Inl uniqueViolation, tbl)
          else (Inr row, tbl @ [row]))"

text \<open>
  The SQL \<open>LIKE\<close> of the slug query: \<open>%\<close> matches any run of characters,
  \<open>_\<close> any one character, a backslash escapes the next pattern character;
  PostgREST reads \<open>*\<close> as \<open>%\<close>.
\<close>

fun likeMatch :: "jsstring \<Rightarrow> jsstring \<Rightarrow> bool" where
  "likeMatch [] s = (s = [])"
| "likeMatch (p # ps) s =
     (if p = 0x25 \<or> p = 0x2A then
        list_ex (\<lambda>k. likeMatch ps (drop k s)) [0..<Suc (length s)]
      else if p = 0x5F then
        (case s of [] \<Rightarrow> False | c # cs \<Rightarrow> likeMatch ps cs)
      else if p = 0x5C then
        (case ps of
           [] \<Rightarrow> False
         | q # qs \<Rightarrow> (case s of [] \<Rightarrow> False | c # cs \<Rightarrow> c = q \<and> likeMatch qs cs))
      else
        (case s of [] \<Rightarrow> False | c # cs \<Rightarrow> c = p \<and> likeMatch ps cs))"

text \<open>
  \<open>supabase.from('blogs').select('slug').like('slug', pattern)\<close>:
  the stored slugs that match, or \<open>null\<close> for \<open>data\<close> when the query fails.
\<close>

definition matchingSlugs :: "jsstring \<Rightarrow> db \<Rightarrow> jsstring list" where
  "matchingSlugs pattern tbl = filter (likeMatch pattern) (map slug tbl)"

definition selectLike :: "bool \<Rightarrow> jsstring \<Rightarrow> db \<Rightarrow> jsstring list option" where
  "selectLike fails pattern tbl = (if fails then None else Some (matchingSlugs pattern tbl))"

section \<open>Slug disambiguation (manual create, lines 49 to 66)\<close>

text \<open>
  The decimal digits of a counter, as the template literal prints it. The
  counter is a JavaScript number, exact far beyond the size of any table.
\<close>

function decimal :: "nat \<Rightarrow> jsstring" where
  "decimal n =
     (if n < 10 then [0x30 + of_nat n]
      else decimal (n div 10) @ [0x30 + of_nat (n mod 10)])"
  by pat_completeness auto
termination
  by (relation "measure id") auto

declare decimal.simps [simp del]

definition suffixed :: "jsstring \<Rightarrow> nat \<Rightarrow> jsstring" where
  "suffixed s counter = s @ js ''-'' @ decimal counter"

text \<open>Different counters print differently.\<close>

lemma digit_inj:
  "a < 10 \<Longrightarrow> b < 10 \<Longrightarrow> (0x30 + of_nat a :: 16 word) = 0x30 + of_nat b \<Longrightarrow> a = b"
proof -
  assume a: "a < 10" and b: "b < 10" and e: "(0x30 + of_nat a :: 16 word) = 0x30 + of_nat b"
  from e have "(of_nat a :: 16 word) = of_nat b" by simp
  then have "unat (of_nat a :: 16 word) = unat (of_nat b :: 16 word)" by simp
  with a b show "a = b" by (simp add: unat_of_nat)
qed

lemma decimal_nonempty: "decimal n \<noteq> []"
  by (subst decimal.simps) simp

lemma decimal_length_ge2: "10 \<le> n \<Longrightarrow> 2 \<le> length (decimal n)"
proof -
  assume "10 \<le> n"
  then have "decimal n = decimal (n div 10) @ [0x30 + of_nat (n mod 10)]"
    by (subst decimal.simps) simp
  moreover have "1 \<le> length (decimal (n div 10))"
    using decimal_nonempty [of "n div 10"] by (cases "decimal (n div 10)") auto
  ultimately show ?thesis by simp
qed

lemma decimal_inj: "decimal n = decimal m \<Longrightarrow> n = m"
proof (induction n arbitrary: m rule: decimal.induct)
  case (1 n)
  show ?case
  proof (cases "n < 10")
    case True
    then have dn: "decimal n = [0x30 + of_nat n]" by (subst decimal.simps) simp
    show ?thesis
    proof (cases "m < 10")
      case True
      then have "decimal m = [0x30 + of_nat m]" by (subst decimal.simps) simp
      with dn "1.prems" have "(0x30 + of_nat n :: 16 word) = 0x30 + of_nat m" by simp
      with \<open>n < 10\<close> True show ?thesis using digit_inj by blast
    next
      case False
      then have "2 \<le> length (decimal m)" by (simp add: decimal_length_ge2)
      with dn "1.prems" show ?thesis by simp
    qed
  next
    case False
    then have dn: "decimal n = decimal (n div 10) @ [0x30 + of_nat (n mod 10)]"
      by (subst decimal.simps) simp
    show ?thesis
    proof (cases "m < 10")
      case True
      then have "decimal m = [0x30 + of_nat m]" by (subst decimal.simps) simp
      moreover from False have "2 \<le> length (decimal n)" by (simp add: decimal_length_ge2)
      ultimately show ?thesis using "1.prems" by simp
    next
      case m: False
      then have dm: "decimal m = decimal (m div 10) @ [0x30 + of_nat (m mod 10)]"
        by (subst decimal.simps) simp
      from dn dm "1.prems" have e1: "decimal (n div 10) = decimal (m div 10)"
        and e2: "(0x30 + of_nat (n mod 10) :: 16 word) = 0x30 + of_nat (m mod 10)"
        by simp_all
      from "1.IH" [OF False e1] have q: "n div 10 = m div 10" .
      have r: "n mod 10 = m mod 10"
        by (rule digit_inj [OF _ _ e2]) simp_all
      from q r show ?thesis by (metis div_mult_mod_eq)
    qed
  qed
qed

lemma suffixed_inj: "suffixed s k = suffixed s j \<Longrightarrow> k = j"
  by (simp add: suffixed_def decimal_inj)

lemma filter_length_less:
  "x \<in> set xs \<Longrightarrow> P x \<Longrightarrow> \<not> Q x \<Longrightarrow> (\<And>e. Q e \<Longrightarrow> P e) \<Longrightarrow>
   length (filter Q xs) < length (filter P xs)"
proof (induction xs)
  case Nil
  then show ?case by simp
next
  case (Cons a xs)
  have le: "length (filter Q xs) \<le> length (filter P xs)"
    using Cons.prems(4) by (induction xs) auto
  show ?case
  proof (cases "a = x")
    case True
    with Cons.prems le show ?thesis by auto
  next
    case False
    with Cons show ?thesis by auto
  qed
qed

text \<open>
  The loop \<open>while (existingSlugs.includes(newSlug))\<close>. It ends because the
  candidates \<open>slug-1\<close>, \<open>slug-2\<close>, ... are pairwise different and the
  list is finite: each round uses up one stored candidate.
\<close>

function whileTaken :: "jsstring \<Rightarrow> jsstring list \<Rightarrow> nat \<Rightarrow> jsstring \<Rightarrow> jsstring" where
  "whileTaken s existingSlugs counter newSlug =
     (if newSlug \<in> set existingSlugs
      then whileTaken s existingSlugs (counter + 1) (suffixed s counter)
      else newSlug)"
  by pat_completeness auto
termination
proof (relation "measure (\<lambda>(s, ex, counter, newSlug).
          length (filter (\<lambda>e. \<exists>k\<ge>counter. e = suffixed s k) ex) +
          (if newSlug \<in> set ex then 1 else 0))")
  show "wf (measure (\<lambda>(s, ex, counter, newSlug).
          length (filter (\<lambda>e. \<exists>k\<ge>counter. e = suffixed s k) ex) +
          (if newSlug \<in> set ex then 1 else 0)))"
    by simp
next
  fix s :: jsstring and existingSlugs :: "jsstring list" and counter :: nat and newSlug :: jsstring
  assume taken: "newSlug \<in> set existingSlugs"
  let ?P = "\<lambda>c e. \<exists>k\<ge>c. e = suffixed s k"
  have mono: "length (filter (?P (counter + 1)) existingSlugs)
      \<le> length (filter (?P counter) existingSlugs)"
  proof (induction existingSlugs)
    case Nil
    show ?case by simp
  next
    case (Cons a xs)
    have "?P (counter + 1) a \<Longrightarrow> ?P counter a" by (metis add_leD1)
    with Cons show ?case by auto
  qed
  have strict: "length (filter (?P (counter + 1)) existingSlugs)
      < length (filter (?P counter) existingSlugs)"
    if "suffixed s counter \<in> set existingSlugs"
  proof (rule filter_length_less [OF that])
    show "?P counter (suffixed s counter)" by auto
    show "\<not> ?P (counter + 1) (suffixed s counter)"
    proof
      assume "?P (counter + 1) (suffixed s counter)"
      then obtain k where "k \<ge> counter + 1" "suffixed s counter = suffixed s k" by blast
      then show False using suffixed_inj by fastforce
    qed
    show "\<And>e. ?P (counter + 1) e \<Longrightarrow> ?P counter e" by (metis add_leD1)
  qed
  show "((s, existingSlugs, counter + 1, suffixed s counter), s, existingSlugs, counter, newSlug)
       \<in> measure (\<lambda>(s, ex, counter, newSlug).
          length (filter (\<lambda>e. \<exists>k\<ge>counter. e = suffixed s k) ex) +
          (if newSlug \<in> set ex then 1 else 0))"
    using taken mono strict by auto
qed

declare whileTaken.simps [simp del]

text \<open>Lines 57 to 66: the loop runs only on a non-empty query result.\<close>

definition uniqueSlug :: "jsstring \<Rightarrow> jsstring list option \<Rightarrow> jsstring" where
  "uniqueSlug s existingBlogs =
     (case existingBlogs of
        None \<Rightarrow> s
      | Some existingSlugs \<Rightarrow>
          if length existingSlugs > 0 then whileTaken s existingSlugs 1 s else s)"

text \<open>Lines 49 to 66 together: slugify, query, disambiguate.\<close>

definition createSlug :: "services \<Rightarrow> jsstring \<Rightarrow> db \<Rightarrow> jsstring" where
  "createSlug svc t tbl =
     uniqueSlug (slugify svc t)
       (selectLike (selectFails svc) (slugify svc t @ js ''%'') tbl)"

section \<open>The completion client (generate.ts, lines 106 to 199)\<close>

definition keyConfigured :: "services \<Rightarrow> bool" where
  "keyConfigured svc \<longleftrightarrow> (case apiKey svc of None \<Rightarrow> False | Some k \<Rightarrow> k \<noteq> [])"

definition generateBlogWithAI :: "services \<Rightarrow> jsstring \<Rightarrow> exn + json" where
  "generateBlogWithAI svc word =
     (if \<not> keyConfigured svc then Inl ApiKeyNotConfigured
      else
        (case completions svc word of
           NoReply \<Rightarrow> Inl FetchFailed
         | NotOk st errorText \<Rightarrow> Inl (ApiError st errorText)
         | NotJson \<Rightarrow> Inl InvalidJson
         | NoMessage \<Rightarrow> Inl InvalidResponse
         | MessageContent c \<Rightarrow> Inr c))"

definition fetchCalls :: "services \<Rightarrow> jsstring \<Rightarrow> call list" where
  "fetchCalls svc word = (if keyConfigured svc then [Fetch word] else [])"

section \<open>The generate handler (generate.ts, lines 6 to 104)\<close>

text \<open>\<open>line.replace(/^#+\s*/, '')\<close>.\<close>

definition stripHeading :: "jsstring \<Rightarrow> jsstring" where
  "stripHeading line =
     (case line of
        [] \<Rightarrow> []
      | c # cs \<Rightarrow>
          if c = 0x23 then dropWhile isWhiteSpace (dropWhile (\<lambda>x. x = 0x23) line)
          else line)"

definition fallbackTitle :: "jsstring \<Rightarrow> jsstring" where
  "fallbackTitle trimmedWord = js ''Blog about '' @ trimmedWord"

text \<open>Lines 66 and 67.\<close>

definition extractTitle :: "jsstring \<Rightarrow> jsstring \<Rightarrow> jsstring" where
  "extractTitle blogContent trimmedWord =
     (case filter (\<lambda>line. trim line \<noteq> []) (split 0xA blogContent) of
        [] \<Rightarrow> fallbackTitle trimmedWord
      | line # _ \<Rightarrow>
          if stripHeading line = [] then fallbackTitle trimmedWord
          else stripHeading line)"

definition authRequired :: payload where
  "authRequired = Message ''Authentication required. Please sign in to create blogs.''"

definition failedToGenerate :: payload where
  "failedToGenerate = Message ''Failed to generate blog''"

text \<open>Lines 66 to 99: title, slug, HTML, tags and the insert.\<close>

definition generatedRow :: "services \<Rightarrow> jsstring \<Rightarrow> jsstring \<Rightarrow> jsstring \<Rightarrow> blog" where
  "generatedRow svc trimmedWord userId blogContent =
     \<lparr>title = extractTitle blogContent trimmedWord,
      slug = slugify svc (extractTitle blogContent trimmedWord),
      content_md = blogContent,
      content_html = marked svc blogContent,
      tags = [JStr (toLowerCase trimmedWord), JStr (js ''ai-generated'')],
      user_id = Some userId\<rparr>"

definition saveGenerated ::
  "services \<Rightarrow> jsstring \<Rightarrow> jsstring \<Rightarrow> jsstring \<Rightarrow> db \<Rightarrow> call list \<Rightarrow> result" where
  "saveGenerated svc trimmedWord userId blogContent tbl cs =
     (case insertRow (insertError svc)
             (generatedRow svc trimmedWord userId blogContent) tbl of
        (Inl e, tbl') \<Rightarrow>
          respond 500 (Message ''Failed to save blog'') tbl'
            (cs @ [Insert (generatedRow svc trimmedWord userId blogContent)])
      | (Inr stored, tbl') \<Rightarrow>
          respond 200 (Blog stored) tbl'
            (cs @ [Insert (generatedRow svc trimmedWord userId blogContent)]))"

text \<open>Lines 62 to 99, once the user is known.\<close>

definition generateFor ::
  "services \<Rightarrow> jsstring \<Rightarrow> jsstring \<Rightarrow> db \<Rightarrow> call list \<Rightarrow> result" where
  "generateFor svc trimmedWord userId tbl cs =
     (case generateBlogWithAI svc trimmedWord of
        Inl e \<Rightarrow> respond 500 failedToGenerate tbl (cs @ fetchCalls svc trimmedWord)
      | Inr content \<Rightarrow>
          (case content of
             JStr blogContent \<Rightarrow>
               saveGenerated svc trimmedWord userId blogContent tbl
                 (cs @ fetchCalls svc trimmedWord)
           | _ \<Rightarrow> respond 500 failedToGenerate tbl (cs @ fetchCalls svc trimmedWord)))"

text \<open>Lines 43 to 103: the \<open>try\<close> block for a validated word.\<close>

definition generateAuthenticated ::
  "services \<Rightarrow> request \<Rightarrow> jsstring \<Rightarrow> db \<Rightarrow> result" where
  "generateAuthenticated svc req trimmedWord tbl =
     (case authorization req of
        None \<Rightarrow> respond 401 authRequired tbl []
      | Some authHeader \<Rightarrow>
          if authHeader = [] then respond 401 authRequired tbl []
          else if bearerToken authHeader = [] then
            respond 401 authRequired tbl []
          else
            (case getUser svc (bearerToken authHeader) of
               AuthThrows \<Rightarrow>
                 respond 500 failedToGenerate tbl
                   [GetUser (bearerToken authHeader)]
             | AuthError m \<Rightarrow>
                 respond 401 authRequired tbl
                   [GetUser (bearerToken authHeader)]
             | AuthNoUser \<Rightarrow>
                 respond 401 authRequired tbl
                   [GetUser (bearerToken authHeader)]
             | AuthUser userId \<Rightarrow>
                 generateFor svc trimmedWord userId tbl
                   [GetUser (bearerToken authHeader)]))"

definition generate_handler :: "services \<Rightarrow> request \<Rightarrow> db \<Rightarrow> result" where
  "generate_handler svc req tbl =
     (if req_method req \<noteq> js ''POST'' then
        respond 405 (Message ''Method not allowed'') tbl []
      else
        (case getProp (body req) (js ''word'') of
           None \<Rightarrow> \<lparr>reply = None, table = tbl, calls = []\<rparr>
         | Some word \<Rightarrow>
             (case validateWord word of
                Inl rejection \<Rightarrow> \<lparr>reply = Some rejection, table = tbl, calls = []\<rparr>
              | Inr trimmedWord \<Rightarrow> generateAuthenticated svc req trimmedWord tbl)))"

section \<open>The manual create handler (src/unnamed/part_004, lines 6 to 149)\<close>

text \<open>Lines 74 to 79: the tags as an array, then \<open>push('manual')\<close>.\<close>

definition normalizeTags :: "json \<Rightarrow> json list" where
  "normalizeTags tgs =
     (case tgs of
        JArr xs \<Rightarrow> xs
      | JStr s \<Rightarrow> map JStr (filter (\<lambda>tag. tag \<noteq> []) (map trim (split 0x2C s)))
      | _ \<Rightarrow> [])"

definition processTags :: "json \<Rightarrow> json list" where
  "processTags tgs = normalizeTags tgs @ [JStr (js ''manual'')]"

definition failedToCreate :: "exn \<Rightarrow> payload" where
  "failedToCreate e = MessageThrown ''Failed to create blog'' e"

definition failedToSave :: "db_error \<Rightarrow> payload" where
  "failedToSave e = MessageDb ''Failed to save blog'' (message e) (details e) (hint e)"

definition createdRow ::
  "services \<Rightarrow> jsstring \<Rightarrow> jsstring \<Rightarrow> json \<Rightarrow> jsstring \<Rightarrow> db \<Rightarrow> blog" where
  "createdRow svc t content tgs userId tbl =
     \<lparr>title = t,
      slug = createSlug svc t tbl,
      content_md = content,
      content_html = marked svc content,
      tags = processTags tgs,
      user_id = Some userId\<rparr>"

text \<open>
  Lines 84 to 141: the insert, and the second insert without \<open>user_id\<close> when
  the first fails on the schema cache.
\<close>

definition saveCreated :: "services \<Rightarrow> blog \<Rightarrow> db \<Rightarrow> call list \<Rightarrow> result" where
  "saveCreated svc row tbl cs =
     (case insertRow (insertError svc) row tbl of
        (Inr stored, tbl') \<Rightarrow> respond 200 (Blog stored) tbl' (cs @ [Insert row])
      | (Inl e, tbl') \<Rightarrow>
          if code e = js ''PGRST204'' \<and> includes_js (message e) (js ''user_id'') then
            (case insertRow (retryError svc) (row\<lparr>user_id := None\<rparr>) tbl' of
               (Inl retryErr, tbl'') \<Rightarrow>
                 respond 500 (failedToSave retryErr) tbl''
                   (cs @ [Insert row, Insert (row\<lparr>user_id := None\<rparr>)])
             | (Inr retryData, tbl'') \<Rightarrow>
                 respond 200 (Blog retryData) tbl''
                   (cs @ [Insert row, Insert (row\<lparr>user_id := None\<rparr>)]))
          else respond 500 (failedToSave e) tbl' (cs @ [Insert row]))"

text \<open>
  Lines 48 to 141, once the user is known. \<open>slugify\<close> and \<open>marked\<close> throw on an
  argument that is not a string.
\<close>

definition createFor ::
  "services \<Rightarrow> json \<Rightarrow> json \<Rightarrow> json \<Rightarrow> jsstring \<Rightarrow> db \<Rightarrow> call list \<Rightarrow> result" where
  "createFor svc titleArg contentArg tgs userId tbl cs =
     (case titleArg of
        JStr t \<Rightarrow>
          (case contentArg of
             JStr content \<Rightarrow>
               saveCreated svc (createdRow svc t content tgs userId tbl) tbl
                 (cs @ [SelectLike (slugify svc t @ js ''%'')])
           | _ \<Rightarrow>
               respond 500 (failedToCreate MarkedArgument) tbl
                 (cs @ [SelectLike (slugify svc t @ js ''%'')]))
      | _ \<Rightarrow> respond 500 (failedToCreate SlugifyArgument) tbl cs)"

text \<open>Lines 20 to 148: the \<open>try\<close> block.\<close>

definition createAuthenticated ::
  "services \<Rightarrow> request \<Rightarrow> json \<Rightarrow> json \<Rightarrow> json \<Rightarrow> db \<Rightarrow> result" where
  "createAuthenticated svc req titleArg contentArg tgs tbl =
     (case authorization req of
        None \<Rightarrow> respond 401 (Message ''Authorization header required'') tbl []
      | Some authHeader \<Rightarrow>
          if authHeader = [] then
            respond 401 (Message ''Authorization header required'') tbl []
          else if bearerToken authHeader = [] then
            respond 401 (Message ''Token is required'') tbl []
          else
            (case getUser svc (bearerToken authHeader) of
               AuthThrows \<Rightarrow>
                 respond 500 (failedToCreate ThrownByGetUser) tbl
                   [GetUser (bearerToken authHeader)]
             | AuthError m \<Rightarrow>
                 respond 401 (MessageError ''Authentication failed'' m) tbl
                   [GetUser (bearerToken authHeader)]
             | AuthNoUser \<Rightarrow>
                 respond 401 (Message ''User not found'') tbl
                   [GetUser (bearerToken authHeader)]
             | AuthUser userId \<Rightarrow>
                 createFor svc titleArg contentArg tgs userId tbl
                   [GetUser (bearerToken authHeader)]))"

definition create_handler :: "services \<Rightarrow> request \<Rightarrow> db \<Rightarrow> result" where
  "create_handler svc req tbl =
     (if req_method req \<noteq> js ''POST'' then
        respond 405 (Message ''Method not allowed'') tbl []
      else
        (case getProp (body req) (js ''title'') of
           None \<Rightarrow> \<lparr>reply = None, table = tbl, calls = []\<rparr>
         | Some titleArg \<Rightarrow>
             (case getProp (body req) (js ''content'') of
                None \<Rightarrow> \<lparr>reply = None, table = tbl, calls = []\<rparr>
              | Some contentArg \<Rightarrow>
                  (case getProp (body req) (js ''tags'') of
                     None \<Rightarrow> \<lparr>reply = None, table = tbl, calls = []\<rparr>
                   | Some tgs \<Rightarrow>
                       if \<not> truthy titleArg \<or> \<not> truthy contentArg then
                         respond 400 (Message ''Title and content are required'') tbl []
                       else createAuthenticated svc req titleArg contentArg tgs tbl))))"

section \<open>Notions used in the properties\<close>

text \<open>The strings matched by \<open>^[A-Za-z]{2,20}$\<close>.\<close>

definition matchesWordPattern :: "jsstring \<Rightarrow> bool" where
  "matchesWordPattern s \<longleftrightarrow> 2 \<le> length s \<and> length s \<le> 20 \<and> (\<forall>c \<in> set s. isLetter c)"

text \<open>
  The request carries no credential the identity service accepts: no header,
  no token left after \<open>Bearer \<close> is removed, or a token for which
  \<open>getUser\<close> reports an error or no user.
\<close>

definition credentialRejected :: "services \<Rightarrow> request \<Rightarrow> bool" where
  "credentialRejected svc req \<longleftrightarrow>
     (case authorization req of
        None \<Rightarrow> True
      | Some authHeader \<Rightarrow>
          bearerToken authHeader = [] \<or>
          (case getUser svc (bearerToken authHeader) of
             AuthUser userId \<Rightarrow> False
           | AuthError m \<Rightarrow> True
           | AuthNoUser \<Rightarrow> True
           | AuthThrows \<Rightarrow> False))"

text \<open>Calls to the completion endpoint, and writes to the database.\<close>

definition isFetch :: "call \<Rightarrow> bool" where
  "isFetch c = (case c of Fetch w \<Rightarrow> True | _ \<Rightarrow> False)"

definition isInsert :: "call \<Rightarrow> bool" where
  "isInsert c = (case c of Insert row \<Rightarrow> True | _ \<Rightarrow> False)"

text \<open>
  A row written by a run: sent to the database in an insert, or present in the
  table afterwards and not before.
\<close>

definition written :: "result \<Rightarrow> db \<Rightarrow> blog \<Rightarrow> bool" where
  "written r tbl row \<longleftrightarrow>
     Insert row \<in> set (calls r) \<or> (row \<in> set (table r) \<and> row \<notin> set tbl)"

definition isLowerCase :: "jsstring \<Rightarrow> bool" where
  "isLowerCase s \<longleftrightarrow> list_all (\<lambda>c. 0x61 \<le> c \<and> c \<le> 0x7A) s"

text \<open>The slugs the loop tries, in order: the base slug, then \<open>-1\<close>, \<open>-2\<close>, ...\<close>

definition candidate :: "jsstring \<Rightarrow> nat \<Rightarrow> jsstring" where
  "candidate s k = (if k = 0 then s else suffixed s k)"

section \<open>A concrete environment\<close>

text \<open>
  Stand-ins for the collaborators, used where a property is run on a concrete
  request. \<open>slugifyWords\<close> is what \<open>slugify(t, { lower: true, strict: true })\<close>
  computes on a title of ASCII letters, digits and blanks: the words in lower
  case, joined by hyphens.
\<close>

definition isAlnum :: "jschar \<Rightarrow> bool" where
  "isAlnum c \<longleftrightarrow> isLetter c \<or> (0x30 \<le> c \<and> c \<le> 0x39)"

fun hyphenate :: "jsstring \<Rightarrow> jsstring" where
  "hyphenate [] = []"
| "hyphenate (c # cs) =
     (if isWhiteSpace c then
        (case cs of
           [] \<Rightarrow> [0x2D]
         | d # ds \<Rightarrow> if isWhiteSpace d then hyphenate cs else 0x2D # hyphenate cs)
      else c # hyphenate cs)"

definition slugifyWords :: "jsstring \<Rightarrow> jsstring" where
  "slugifyWords t =
     toLowerCase (hyphenate (trim (filter (\<lambda>c. isAlnum c \<or> isWhiteSpace c) t)))"

definition demoServices :: services where
  "demoServices =
     \<lparr>getUser = (\<lambda>token. if token = js ''secret'' then AuthUser (js ''u1'') else AuthNoUser),
      apiKey = Some (js ''key''),
      completions = (\<lambda>word. MessageContent (JStr (js ''# Freedom''))),
      slugify = slugifyWords,
      marked = (\<lambda>md. js ''<p>'' @ md @ js ''</p>''),
      selectFails = False,
      insertError = None,
      retryError = None\<rparr>"

definition wordRequest :: "jsstring option \<Rightarrow> jsstring \<Rightarrow> request" where
  "wordRequest auth w =
     \<lparr>req_method = js ''POST'', authorization = auth, body = JObj [(js ''word'', JStr w)]\<rparr>"

definition createRequest :: "jsstring option \<Rightarrow> jsstring \<Rightarrow> jsstring \<Rightarrow> json \<Rightarrow> request" where
  "createRequest auth t content tgs =
     \<lparr>req_method = js ''POST'', authorization = auth,
      body = JObj [(js ''title'', JStr t), (js ''content'', JStr content), (js ''tags'', tgs)]\<rparr>"

definition demoRow :: blog where
  "demoRow =
     \<lparr>title = js ''Freedom'', slug = js ''freedom'', content_md = js ''# Freedom'',
      content_html = js ''<p># Freedom</p>'',
      tags = [JStr (js ''freedom''), JStr (js ''ai-generated'')],
      user_id = Some (js ''u1'')\<rparr>"

definition createRow :: blog where
  "createRow =
     \<lparr>title = js ''My Post'', slug = js ''my-post'', content_md = js ''Hello'',
      content_html = js ''<p>Hello</p>'',
      tags = [JStr (js ''a''), JStr (js ''b''), JStr (js ''manual'')],
      user_id = Some (js ''u1'')\<rparr>"

definition schemaCacheError :: db_error where
  "schemaCacheError =
     \<lparr>code = js ''PGRST204'', message = js ''no user_id column in the schema cache'',
      details = [], hint = []\<rparr>"

definition takenRow :: "jsstring \<Rightarrow> blog" where
  "takenRow s = demoRow\<lparr>slug := s\<rparr>"

text \<open>
  Generated texts: a heading after two blank lines, a first line that is only
  a marker, and a text of blank lines.
\<close>

definition headedText :: jsstring where
  "headedText = js ''  '' @ [0x9, 0xD, 0xA, 0xA] @ js ''## Why Tech Matters'' @ [0xA] @ js ''body''"

definition emptyHeadingText :: jsstring where
  "emptyHeadingText = js '' '' @ [0xA] @ js ''#  ''"

definition blankText :: jsstring where
  "blankText = js ''  '' @ [0xA, 0x9]"

section \<open>Properties of the validator\<close>

lemma js_simps: "js [] = []" "js (c # cs) = of_nat (of_char c) # js cs"
  by (simp_all add: js_def)

lemma letter_not_space: "isLetter c \<Longrightarrow> \<not> isWhiteSpace c"
  unfolding isLetter_def isWhiteSpace_def by (auto simp: word_le_nat_alt)

lemma trim_id: "s \<noteq> [] \<Longrightarrow> \<not> isWhiteSpace (hd s) \<Longrightarrow> \<not> isWhiteSpace (last s) \<Longrightarrow> trim s = s"
proof -
  assume ne: "s \<noteq> []" and h: "\<not> isWhiteSpace (hd s)" and l: "\<not> isWhiteSpace (last s)"
  from ne h have a: "dropWhile isWhiteSpace s = s" by (cases s) auto
  from ne l have "dropWhile isWhiteSpace (rev s) = rev s"
    by (cases "rev s") (auto simp: last_rev [symmetric] hd_rev)
  with a show ?thesis by (simp add: trim_def)
qed

lemma includes_space: "includes_js s (js '' '') \<longleftrightarrow> 0x20 \<in> set s"
  by (induction s) (auto simp: startsWith_def js_simps)

lemma trim_letters:
  assumes "s \<noteq> []" and "\<forall>c \<in> set s. isLetter c"
  shows "trim s = s"
proof (rule trim_id)
  show "s \<noteq> []" by fact
  from assms show "\<not> isWhiteSpace (hd s)" by (simp add: letter_not_space)
  from assms show "\<not> isWhiteSpace (last s)" by (simp add: letter_not_space)
qed

lemma letter_not_blank: "isLetter c \<Longrightarrow> c \<noteq> 0x20"
  unfolding isLetter_def by (auto simp: word_le_nat_alt)

text \<open>
  C1. Every string of 2 to 20 ASCII letters passes the server-side validator:
  no rejection branch is taken, trimming leaves the string as it is, and the
  word handed to the rest of the generate handler is the string itself, in its
  original casing.
\<close>

theorem valid_word_accepted:
  assumes "matchesWordPattern s"
  shows "validateWord (JStr s) = Inr s \<and> trim s = s \<and>
    (req_method req = js ''POST'' \<longrightarrow> getProp (body req) (js ''word'') = Some (JStr s) \<longrightarrow>
       generate_handler svc req tbl = generateAuthenticated svc req s tbl)"
proof -
  from assms have len: "2 \<le> length s" "length s \<le> 20" and letters: "\<forall>c \<in> set s. isLetter c"
    by (simp_all add: matchesWordPattern_def)
  from len have ne: "s \<noteq> []" by auto
  have t: "trim s = s" using ne letters by (rule trim_letters)
  have nospace: "\<not> includes_js s (js '' '')"
    using letters letter_not_blank by (auto simp: includes_space)
  have lo: "lettersOnly s"
    using ne letters by (simp add: lettersOnly_def list_all_iff)
  have v: "validateWord (JStr s) = Inr s"
    using ne t nospace lo len by (simp add: validateWord_def)
  from v t show ?thesis by (simp add: generate_handler_def)
qed

theorem valid_word_accepted_witness:
  "matchesWordPattern (js ''Freedom'') \<and>
   validateWord (JStr (js ''Freedom'')) = Inr (js ''Freedom'') \<and>
   trim (js ''Freedom'') = js ''Freedom''"
proof -
  have m: "matchesWordPattern (js ''Freedom'')"
    by (simp add: matchesWordPattern_def isLetter_def js_simps)
  from valid_word_accepted [OF m] m show ?thesis by blast
qed

text \<open>
  C2 as stated fails: a string with a leading blank and two letters contains a
  space character and is accepted, since the validator trims before it looks
  for a blank.
\<close>

theorem space_rejection_counterexample:
  "\<not> (\<forall>s. 0x20 \<in> set s \<longrightarrow>
         validateWord (JStr s) =
           Inl (badRequest ''Please enter only ONE word (no spaces allowed)''))"
proof
  assume a: "\<forall>s. 0x20 \<in> set s \<longrightarrow>
         validateWord (JStr s) =
           Inl (badRequest ''Please enter only ONE word (no spaces allowed)'')"
  have "validateWord (JStr (js '' ab'')) = Inr (js ''ab'')"
    by (simp add: validateWord_def trim_def isWhiteSpace_def lettersOnly_def isLetter_def
        startsWith_def js_simps)
  moreover have "0x20 \<in> set (js '' ab'')" by (simp add: js_simps)
  ultimately show False using a by fastforce
qed

text \<open>
  C2, amended. Every string that still contains a space character (U+0020)
  after its surrounding whitespace is trimmed is rejected with status 400 and
  the message asking for only one word, whatever its other characters are; the
  generate handler then makes no external call and leaves the table as it is.
\<close>

theorem space_after_trim_rejected:
  assumes "0x20 \<in> set (trim s)"
  shows "validateWord (JStr s) =
           Inl (badRequest ''Please enter only ONE word (no spaces allowed)'') \<and>
    (req_method req = js ''POST'' \<longrightarrow> getProp (body req) (js ''word'') = Some (JStr s) \<longrightarrow>
       generate_handler svc req tbl =
         respond 400 (Message ''Please enter only ONE word (no spaces allowed)'') tbl [])"
proof -
  from assms have tne: "trim s \<noteq> []" by auto
  then have ne: "s \<noteq> []" by (auto simp: trim_def)
  have v: "validateWord (JStr s) =
           Inl (badRequest ''Please enter only ONE word (no spaces allowed)'')"
    using ne tne assms by (simp add: validateWord_def includes_space)
  then show ?thesis by (simp add: generate_handler_def respond_def badRequest_def)
qed

theorem space_after_trim_rejected_witness:
  "0x20 \<in> set (trim (js ''hello world'')) \<and>
   validateWord (JStr (js ''hello world'')) =
     Inl (badRequest ''Please enter only ONE word (no spaces allowed)'')"
proof -
  have m: "0x20 \<in> set (trim (js ''hello world''))"
    by (simp add: trim_def isWhiteSpace_def js_simps)
  from space_after_trim_rejected [OF m] m show ?thesis by blast
qed

section \<open>Properties of the handlers\<close>

text \<open>
  C10. For every method other than POST both handlers answer 405 with the
  message \<open>Method not allowed\<close>, whatever the body is: nothing is validated,
  no external call is made and the table is unchanged.
\<close>

theorem method_not_allowed:
  assumes "req_method req \<noteq> js ''POST''"
  shows "generate_handler svc (req\<lparr>body := b\<rparr>) tbl =
           respond 405 (Message ''Method not allowed'') tbl [] \<and>
         create_handler svc (req\<lparr>body := b\<rparr>) tbl =
           respond 405 (Message ''Method not allowed'') tbl []"
  using assms by (simp add: generate_handler_def create_handler_def)

theorem method_not_allowed_witness:
  "req_method \<lparr>req_method = js ''GET'', authorization = None, body = JNull\<rparr> \<noteq> js ''POST'' \<and>
   generate_handler demoServices
     \<lparr>req_method = js ''GET'', authorization = None, body = JObj [(js ''word'', JStr (js ''freedom''))]\<rparr> [] =
     respond 405 (Message ''Method not allowed'') [] [] \<and>
   create_handler demoServices
     \<lparr>req_method = js ''GET'', authorization = None, body = JObj [(js ''word'', JStr (js ''freedom''))]\<rparr> [] =
     respond 405 (Message ''Method not allowed'') [] []"
proof -
  have m: "req_method \<lparr>req_method = js ''GET'', authorization = None, body = JNull\<rparr> \<noteq> js ''POST''"
    by (simp add: js_simps)
  from method_not_allowed [OF m, of demoServices "JObj [(js ''word'', JStr (js ''freedom''))]" "[]"] m
  show ?thesis by simp
qed

subsection \<open>What a run writes\<close>

text \<open>
  Every row a handler sends to the database, and every row a run adds to the
  table, is the row built from the request by \<open>generatedRow\<close> or
  \<open>createdRow\<close> (the latter possibly without its owner).
\<close>

lemma insertRow_cases:
  "insertRow fault row tbl = (x, tbl') \<Longrightarrow>
     (tbl' = tbl \<and> (\<exists>e. x = Inl e)) \<or> (tbl' = tbl @ [row] \<and> x = Inr row \<and> fault = None \<and> slug row \<notin> set (map slug tbl))"
  by (auto simp: insertRow_def split: option.splits if_splits)

lemma saveGenerated_calls:
  "calls (saveGenerated svc w u md tbl cs) = cs @ [Insert (generatedRow svc w u md)]"
  by (auto simp: saveGenerated_def respond_def split: prod.splits sum.splits)

lemma saveGenerated_table:
  "table (saveGenerated svc w u md tbl cs) = tbl \<or>
   table (saveGenerated svc w u md tbl cs) = tbl @ [generatedRow svc w u md]"
  by (auto simp: saveGenerated_def respond_def split: prod.splits sum.splits dest: insertRow_cases)

lemma generateFor_inserts:
  "Insert row \<in> set (calls (generateFor svc w u tbl cs)) \<Longrightarrow> Insert row \<notin> set cs \<Longrightarrow>
     \<exists>md. generateBlogWithAI svc w = Inr (JStr md) \<and> row = generatedRow svc w u md"
  by (auto simp: generateFor_def respond_def fetchCalls_def saveGenerated_calls
      split: sum.splits json.splits if_splits)

lemma saveGenerated_new_row:
  "row \<in> set (table (saveGenerated svc w u md tbl cs)) \<Longrightarrow> row \<notin> set tbl \<Longrightarrow>
     row = generatedRow svc w u md"
  using saveGenerated_table [of svc w u md tbl cs] by auto

lemma generateFor_table:
  "row \<in> set (table (generateFor svc w u tbl cs)) \<Longrightarrow> row \<notin> set tbl \<Longrightarrow>
     \<exists>md. generateBlogWithAI svc w = Inr (JStr md) \<and> row = generatedRow svc w u md"
  by (auto simp: generateFor_def respond_def split: sum.splits json.splits
      dest: saveGenerated_new_row)

lemma generateAuthenticated_inserts:
  "Insert row \<in> set (calls (generateAuthenticated svc req w tbl)) \<Longrightarrow>
     \<exists>u md. row = generatedRow svc w u md"
  by (auto simp: generateAuthenticated_def respond_def
      split: option.splits if_splits auth_reply.splits dest!: generateFor_inserts)

lemma generateAuthenticated_table:
  "row \<in> set (table (generateAuthenticated svc req w tbl)) \<Longrightarrow> row \<notin> set tbl \<Longrightarrow>
     \<exists>u md. row = generatedRow svc w u md"
  by (auto simp: generateAuthenticated_def respond_def
      split: option.splits if_splits auth_reply.splits dest!: generateFor_table)

lemma generate_handler_inserts:
  "Insert row \<in> set (calls (generate_handler svc req tbl)) \<Longrightarrow>
     \<exists>word w u md. getProp (body req) (js ''word'') = Some word \<and> validateWord word = Inr w \<and>
        row = generatedRow svc w u md"
  by (auto simp: generate_handler_def respond_def
      split: option.splits if_splits sum.splits dest!: generateAuthenticated_inserts)

lemma generate_handler_table:
  "row \<in> set (table (generate_handler svc req tbl)) \<Longrightarrow> row \<notin> set tbl \<Longrightarrow>
     \<exists>word w u md. getProp (body req) (js ''word'') = Some word \<and> validateWord word = Inr w \<and>
        row = generatedRow svc w u md"
  by (auto simp: generate_handler_def respond_def
      split: option.splits if_splits sum.splits dest!: generateAuthenticated_table)

lemma saveCreated_inserts:
  "Insert r \<in> set (calls (saveCreated svc row tbl cs)) \<Longrightarrow> Insert r \<notin> set cs \<Longrightarrow>
     r = row \<or> r = row\<lparr>user_id := None\<rparr>"
  by (auto simp: saveCreated_def respond_def split: prod.splits sum.splits if_splits)

lemma saveCreated_table:
  "r \<in> set (table (saveCreated svc row tbl cs)) \<Longrightarrow> r \<notin> set tbl \<Longrightarrow>
     r = row \<or> r = row\<lparr>user_id := None\<rparr>"
  by (auto simp: saveCreated_def respond_def split: prod.splits sum.splits if_splits
      dest!: insertRow_cases)

lemma createFor_inserts:
  "Insert r \<in> set (calls (createFor svc titleArg contentArg tgs u tbl cs)) \<Longrightarrow> Insert r \<notin> set cs \<Longrightarrow>
     \<exists>t content. titleArg = JStr t \<and> contentArg = JStr content \<and>
       (r = createdRow svc t content tgs u tbl \<or> r = (createdRow svc t content tgs u tbl)\<lparr>user_id := None\<rparr>)"
  by (auto simp: createFor_def respond_def split: json.splits dest!: saveCreated_inserts)

lemma createFor_table:
  "r \<in> set (table (createFor svc titleArg contentArg tgs u tbl cs)) \<Longrightarrow> r \<notin> set tbl \<Longrightarrow>
     \<exists>t content. titleArg = JStr t \<and> contentArg = JStr content \<and>
       (r = createdRow svc t content tgs u tbl \<or> r = (createdRow svc t content tgs u tbl)\<lparr>user_id := None\<rparr>)"
  by (auto simp: createFor_def respond_def split: json.splits dest!: saveCreated_table)

lemma createAuthenticated_inserts:
  "Insert r \<in> set (calls (createAuthenticated svc req titleArg contentArg tgs tbl)) \<Longrightarrow>
     \<exists>t content u. titleArg = JStr t \<and> contentArg = JStr content \<and>
       (r = createdRow svc t content tgs u tbl \<or> r = (createdRow svc t content tgs u tbl)\<lparr>user_id := None\<rparr>)"
  by (auto simp: createAuthenticated_def respond_def
      split: option.splits if_splits auth_reply.splits dest!: createFor_inserts)

lemma createAuthenticated_table:
  "r \<in> set (table (createAuthenticated svc req titleArg contentArg tgs tbl)) \<Longrightarrow> r \<notin> set tbl \<Longrightarrow>
     \<exists>t content u. titleArg = JStr t \<and> contentArg = JStr content \<and>
       (r = createdRow svc t content tgs u tbl \<or> r = (createdRow svc t content tgs u tbl)\<lparr>user_id := None\<rparr>)"
  by (auto simp: createAuthenticated_def respond_def
      split: option.splits if_splits auth_reply.splits dest!: createFor_table)

lemma create_handler_inserts:
  "Insert r \<in> set (calls (create_handler svc req tbl)) \<Longrightarrow>
     \<exists>t content tgs u. getProp (body req) (js ''title'') = Some (JStr t) \<and>
       getProp (body req) (js ''content'') = Some (JStr content) \<and>
       getProp (body req) (js ''tags'') = Some tgs \<and>
       (r = createdRow svc t content tgs u tbl \<or> r = (createdRow svc t content tgs u tbl)\<lparr>user_id := None\<rparr>)"
  by (auto simp: create_handler_def respond_def
      split: option.splits if_splits dest!: createAuthenticated_inserts)

lemma create_handler_table:
  "r \<in> set (table (create_handler svc req tbl)) \<Longrightarrow> r \<notin> set tbl \<Longrightarrow>
     \<exists>t content tgs u. getProp (body req) (js ''title'') = Some (JStr t) \<and>
       getProp (body req) (js ''content'') = Some (JStr content) \<and>
       getProp (body req) (js ''tags'') = Some tgs \<and>
       (r = createdRow svc t content tgs u tbl \<or> r = (createdRow svc t content tgs u tbl)\<lparr>user_id := None\<rparr>)"
  by (auto simp: create_handler_def respond_def
      split: option.splits if_splits dest!: createAuthenticated_table)

subsection \<open>Title extraction\<close>

lemma filter_first:
  "i < length ls \<Longrightarrow> P (ls ! i) \<Longrightarrow> \<forall>j<i. \<not> P (ls ! j) \<Longrightarrow> \<exists>rest. filter P ls = ls ! i # rest"
proof (induction ls arbitrary: i)
  case Nil
  then show ?case by simp
next
  case (Cons a ls)
  show ?case
  proof (cases i)
    case 0
    with Cons.prems show ?thesis by simp
  next
    case (Suc k)
    with Cons.prems have "\<not> P a" by auto
    moreover from Suc Cons.prems have "\<exists>rest. filter P ls = ls ! k # rest"
      by (intro Cons.IH) auto
    ultimately show ?thesis using Suc by simp
  qed
qed

lemma fallbackTitle_nonempty: "fallbackTitle w \<noteq> []"
  by (simp add: fallbackTitle_def js_simps)

lemma extractTitle_nonempty: "extractTitle md w \<noteq> []"
  by (simp add: extractTitle_def fallbackTitle_nonempty split: list.splits)

lemma extractTitle_blank:
  "\<forall>l \<in> set (split 0xA md). trim l = [] \<Longrightarrow> extractTitle md w = fallbackTitle w"
proof -
  assume "\<forall>l \<in> set (split 0xA md). trim l = []"
  then have "filter (\<lambda>line. trim line \<noteq> []) (split 0xA md) = []"
    by (simp add: filter_empty_conv)
  then show ?thesis by (simp add: extractTitle_def)
qed

lemma extractTitle_first:
  assumes "i < length (split 0xA md)" and "trim (split 0xA md ! i) \<noteq> []"
    and "\<forall>j<i. trim (split 0xA md ! j) = []"
  shows "extractTitle md w =
    (if stripHeading (split 0xA md ! i) = [] then fallbackTitle w
     else stripHeading (split 0xA md ! i))"
proof -
  from filter_first [of i "split 0xA md" "\<lambda>line. trim line \<noteq> []"] assms
  obtain rest where "filter (\<lambda>line. trim line \<noteq> []) (split 0xA md) = split 0xA md ! i # rest"
    by auto
  then show ?thesis by (simp add: extractTitle_def)
qed

lemma stripHeading_plain: "line = [] \<or> hd line \<noteq> 0x23 \<Longrightarrow> stripHeading line = line"
  by (cases line) (auto simp: stripHeading_def)

lemma stripHeading_marked:
  "0 < n \<Longrightarrow> rest = [] \<or> hd rest \<noteq> 0x23 \<Longrightarrow>
   stripHeading (replicate n 0x23 @ rest) = dropWhile isWhiteSpace rest"
proof -
  assume n: "0 < n" and r: "rest = [] \<or> hd rest \<noteq> 0x23"
  from n obtain k where k: "n = Suc k" by (cases n) auto
  have "dropWhile (\<lambda>x. x = 0x23) (replicate n (0x23 :: jschar) @ rest) = rest"
    using r by (cases rest) (auto simp: dropWhile_append3 dropWhile_append)
  with k show ?thesis by (simp add: stripHeading_def)
qed

subsection \<open>A run of the generate handler\<close>

lemmas string_defs = js_simps trim_def isWhiteSpace_def isLetter_def lettersOnly_def
  startsWith_def bearerToken_def toLowerCase_def

lemma wordRequest_method: "req_method (wordRequest auth w) = js ''POST''"
  by (simp add: wordRequest_def)

lemma wordRequest_word: "getProp (body (wordRequest auth w)) (js ''word'') = Some (JStr w)"
  by (simp add: wordRequest_def)

lemma validate_freedom: "validateWord (JStr (js ''freedom'')) = Inr (js ''freedom'')"
  by (simp add: validateWord_def string_defs)

lemma demo_title: "extractTitle (js ''# Freedom'') (js ''freedom'') = js ''Freedom''"
  by (simp add: extractTitle_def stripHeading_def string_defs)

lemma demo_slug: "slugifyWords (js ''Freedom'') = js ''freedom''"
  by (simp add: slugifyWords_def isAlnum_def string_defs)

lemma demo_generatedRow:
  "generatedRow demoServices (js ''freedom'') (js ''u1'') (js ''# Freedom'') = demoRow"
  by (simp add: generatedRow_def demoServices_def demoRow_def demo_title demo_slug)
     (simp add: string_defs)

lemma demo_generate_run:
  "generate_handler demoServices (wordRequest (Some (js ''Bearer secret'')) (js ''freedom'')) [] =
     respond 200 (Blog demoRow) [demoRow]
       [GetUser (js ''secret''), Fetch (js ''freedom''), Insert demoRow]"
proof -
  have tok: "bearerToken (js ''Bearer secret'') = js ''secret''"
    by (simp add: string_defs)
  have usr: "getUser demoServices (js ''secret'') = AuthUser (js ''u1'')"
    by (simp add: demoServices_def)
  have gen: "generateBlogWithAI demoServices (js ''freedom'') = Inr (JStr (js ''# Freedom''))"
    by (simp add: generateBlogWithAI_def keyConfigured_def demoServices_def js_simps)
  have fc: "fetchCalls demoServices (js ''freedom'') = [Fetch (js ''freedom'')]"
    by (simp add: fetchCalls_def keyConfigured_def demoServices_def js_simps)
  have ins: "insertError demoServices = None" by (simp add: demoServices_def)
  have save: "saveGenerated demoServices (js ''freedom'') (js ''u1'') (js ''# Freedom'') []
        [GetUser (js ''secret''), Fetch (js ''freedom'')] =
      respond 200 (Blog demoRow) [demoRow]
       [GetUser (js ''secret''), Fetch (js ''freedom''), Insert demoRow]"
    by (simp add: saveGenerated_def demo_generatedRow insertRow_def ins)
  have ne: "js ''Bearer secret'' \<noteq> []" "js ''secret'' \<noteq> []" by (simp_all add: js_simps)
  have auth: "generateAuthenticated demoServices
       (wordRequest (Some (js ''Bearer secret'')) (js ''freedom'')) (js ''freedom'') [] =
     respond 200 (Blog demoRow) [demoRow]
       [GetUser (js ''secret''), Fetch (js ''freedom''), Insert demoRow]"
    by (simp add: generateAuthenticated_def wordRequest_def tok usr ne generateFor_def gen fc save)
  show ?thesis
    by (simp add: generate_handler_def wordRequest_method wordRequest_word validate_freedom auth)
qed

lemma createRequest_props:
  "req_method (createRequest auth t content tgs) = js ''POST''"
  "authorization (createRequest auth t content tgs) = auth"
  "getProp (body (createRequest auth t content tgs)) (js ''title'') = Some (JStr t)"
  "getProp (body (createRequest auth t content tgs)) (js ''content'') = Some (JStr content)"
  "getProp (body (createRequest auth t content tgs)) (js ''tags'') = Some tgs"
  by (simp_all add: createRequest_def js_simps)

lemma bearer_secret: "bearerToken (js ''Bearer secret'') = js ''secret''"
  by (simp add: string_defs)

lemma demo_createSlug: "createSlug (demoServices\<lparr>insertError := f\<rparr>) (js ''My Post'') [] = js ''my-post''"
  by (simp add: createSlug_def uniqueSlug_def selectLike_def matchingSlugs_def demoServices_def
      slugifyWords_def isAlnum_def string_defs)

lemma demo_tags: "processTags (JStr (js ''a, b,'')) = [JStr (js ''a''), JStr (js ''b''), JStr (js ''manual'')]"
  by (simp add: processTags_def normalizeTags_def string_defs)

lemma demo_createdRow:
  "createdRow (demoServices\<lparr>insertError := f\<rparr>) (js ''My Post'') (js ''Hello'') (JStr (js ''a, b,''))
     (js ''u1'') [] = createRow"
  by (simp add: createdRow_def demo_createSlug demo_tags createRow_def)
     (simp add: demoServices_def js_simps)

lemma demo_create_run:
  "create_handler demoServices
     (createRequest (Some (js ''Bearer secret'')) (js ''My Post'') (js ''Hello'') (JStr (js ''a, b,''))) [] =
   respond 200 (Blog createRow) [createRow]
     [GetUser (js ''secret''), SelectLike (js ''my-post%''), Insert createRow]"
proof -
  have usr: "getUser demoServices (js ''secret'') = AuthUser (js ''u1'')"
    by (simp add: demoServices_def)
  have ne: "js ''Bearer secret'' \<noteq> []" "js ''secret'' \<noteq> []" "js ''My Post'' \<noteq> []" "js ''Hello'' \<noteq> []"
    by (simp_all add: js_simps)
  have sl: "slugify demoServices (js ''My Post'') @ js ''%'' = js ''my-post%''"
    by (simp add: demoServices_def slugifyWords_def isAlnum_def string_defs)
  have row: "createdRow demoServices (js ''My Post'') (js ''Hello'') (JStr (js ''a, b,'')) (js ''u1'') [] = createRow"
    using demo_createdRow [of "insertError demoServices"] by simp
  have save: "saveCreated demoServices createRow [] [GetUser (js ''secret''), SelectLike (js ''my-post%'')] =
     respond 200 (Blog createRow) [createRow]
     [GetUser (js ''secret''), SelectLike (js ''my-post%''), Insert createRow]"
    by (simp add: saveCreated_def insertRow_def demoServices_def)
  have auth: "createAuthenticated demoServices
       (createRequest (Some (js ''Bearer secret'')) (js ''My Post'') (js ''Hello'') (JStr (js ''a, b,'')))
       (JStr (js ''My Post'')) (JStr (js ''Hello'')) (JStr (js ''a, b,'')) [] =
     respond 200 (Blog createRow) [createRow]
     [GetUser (js ''secret''), SelectLike (js ''my-post%''), Insert createRow]"
    by (simp add: createAuthenticated_def createRequest_props bearer_secret usr ne createFor_def sl row save)
  show ?thesis
    by (simp add: create_handler_def createRequest_props ne auth)
qed

text \<open>
  C6. On both creation paths every row written has as its \<open>content_html\<close>
  the \<open>marked\<close> rendering of its own \<open>content_md\<close>: the markdown stored is
  the markdown rendered.
\<close>

theorem stored_html_is_rendered_markdown:
  assumes "r = generate_handler svc req tbl \<or> r = create_handler svc req tbl"
    and "written r tbl row"
  shows "content_html row = marked svc (content_md row)"
proof -
  from assms consider
    (g) w u md where "row = generatedRow svc w u md"
  | (c) t content tgs u where "row = createdRow svc t content tgs u tbl \<or>
        row = (createdRow svc t content tgs u tbl)\<lparr>user_id := None\<rparr>"
    unfolding written_def
    using generate_handler_inserts generate_handler_table
      create_handler_inserts create_handler_table by metis
  then show ?thesis
  proof cases
    case g
    then show ?thesis by (simp add: generatedRow_def)
  next
    case c
    then show ?thesis by (auto simp: createdRow_def)
  qed
qed

theorem stored_html_is_rendered_markdown_witness:
  "written (generate_handler demoServices (wordRequest (Some (js ''Bearer secret'')) (js ''freedom'')) [])
     [] demoRow \<and>
   content_html demoRow = marked demoServices (content_md demoRow) \<and>
   written (create_handler demoServices
     (createRequest (Some (js ''Bearer secret'')) (js ''My Post'') (js ''Hello'') (JStr (js ''a, b,''))) [])
     [] createRow \<and>
   content_html createRow = marked demoServices (content_md createRow)"
proof -
  have g: "written (generate_handler demoServices (wordRequest (Some (js ''Bearer secret'')) (js ''freedom'')) [])
     [] demoRow"
    by (simp add: written_def demo_generate_run respond_def)
  have c: "written (create_handler demoServices
     (createRequest (Some (js ''Bearer secret'')) (js ''My Post'') (js ''Hello'') (JStr (js ''a, b,''))) [])
     [] createRow"
    by (simp add: written_def demo_create_run respond_def)
  from stored_html_is_rendered_markdown [OF disjI1 [OF refl] g]
    stored_html_is_rendered_markdown [OF disjI2 [OF refl] c] g c
  show ?thesis by simp
qed

lemma validateWord_Inr:
  "validateWord word = Inr w \<Longrightarrow>
     \<exists>s. word = JStr s \<and> w = trim s \<and> lettersOnly w \<and> 2 \<le> length w \<and> length w \<le> 20"
  by (cases word) (auto simp: validateWord_def Let_def badRequest_def split: if_splits)

lemma lower_letter:
  "isLetter c \<Longrightarrow> 0x61 \<le> (if 0x41 \<le> c \<and> c \<le> 0x5A then c + 0x20 else c) \<and>
     (if 0x41 \<le> c \<and> c \<le> 0x5A then c + 0x20 else c) \<le> 0x7A"
  unfolding isLetter_def by (auto simp: word_le_nat_alt unat_word_ariths)

lemma toLowerCase_letters:
  "list_all isLetter w \<Longrightarrow> list_all (\<lambda>c. 0x61 \<le> c \<and> c \<le> 0x7A) (toLowerCase w)"
  by (induction w) (simp_all add: toLowerCase_def lower_letter split del: if_split)

lemma toLowerCase_lower: "lettersOnly w \<Longrightarrow> isLowerCase (toLowerCase w)"
  by (simp add: lettersOnly_def isLowerCase_def toLowerCase_letters)

lemma bearerToken_Nil: "bearerToken [] = []"
  by (simp add: bearerToken_def)

lemma generateAuthenticated_rejected:
  assumes "credentialRejected svc req"
  shows "reply (generateAuthenticated svc req w tbl) = Some \<lparr>status = 401, json = authRequired\<rparr>"
    and "table (generateAuthenticated svc req w tbl) = tbl"
    and "filter isFetch (calls (generateAuthenticated svc req w tbl)) = []"
    and "filter isInsert (calls (generateAuthenticated svc req w tbl)) = []"
  using assms
  by (auto simp: credentialRejected_def generateAuthenticated_def respond_def bearerToken_Nil
      isFetch_def isInsert_def split: option.splits auth_reply.splits)

text \<open>
  C8. A POST to the generate handler with a valid word and no accepted
  credential is answered 401; the completion endpoint is not called, nothing
  is inserted and the table is unchanged.
\<close>

theorem unauthenticated_generate_rejected:
  assumes "req_method req = js ''POST''"
    and "getProp (body req) (js ''word'') = Some word"
    and "validateWord word = Inr trimmedWord"
    and "credentialRejected svc req"
  shows "reply (generate_handler svc req tbl) = Some \<lparr>status = 401, json = authRequired\<rparr> \<and>
         table (generate_handler svc req tbl) = tbl \<and>
         filter isFetch (calls (generate_handler svc req tbl)) = [] \<and>
         filter isInsert (calls (generate_handler svc req tbl)) = []"
proof -
  from assms(1-3) have "generate_handler svc req tbl = generateAuthenticated svc req trimmedWord tbl"
    by (simp add: generate_handler_def)
  with generateAuthenticated_rejected [OF assms(4)] show ?thesis by simp
qed

theorem unauthenticated_generate_rejected_witness:
  "credentialRejected demoServices (wordRequest None (js ''freedom'')) \<and>
   credentialRejected demoServices (wordRequest (Some (js ''Bearer wrong'')) (js ''freedom'')) \<and>
   reply (generate_handler demoServices (wordRequest None (js ''freedom'')) [demoRow]) =
     Some \<lparr>status = 401, json = authRequired\<rparr> \<and>
   table (generate_handler demoServices (wordRequest None (js ''freedom'')) [demoRow]) = [demoRow] \<and>
   reply (generate_handler demoServices (wordRequest (Some (js ''Bearer wrong'')) (js ''freedom'')) [demoRow]) =
     Some \<lparr>status = 401, json = authRequired\<rparr> \<and>
   table (generate_handler demoServices (wordRequest (Some (js ''Bearer wrong'')) (js ''freedom'')) [demoRow]) = [demoRow]"
proof -
  have a: "credentialRejected demoServices (wordRequest None (js ''freedom''))"
    by (simp add: credentialRejected_def wordRequest_def)
  have b: "credentialRejected demoServices (wordRequest (Some (js ''Bearer wrong'')) (js ''freedom''))"
    by (simp add: credentialRejected_def wordRequest_def demoServices_def string_defs)
  from unauthenticated_generate_rejected [OF wordRequest_method wordRequest_word validate_freedom a]
    unauthenticated_generate_rejected [OF wordRequest_method wordRequest_word validate_freedom b] a b
  show ?thesis by simp
qed

text \<open>
  C9. When the insert of an authenticated manual creation fails with code
  \<open>PGRST204\<close> and a message that mentions \<open>user_id\<close>, the handler inserts
  exactly once more, the same row without its \<open>user_id\<close>; when that insert
  succeeds the answer is 200 with the stored row, which has no owner.
\<close>

theorem schema_cache_retry:
  assumes "req_method req = js ''POST''"
    and "getProp (body req) (js ''title'') = Some (JStr t)"
    and "getProp (body req) (js ''content'') = Some (JStr content)"
    and "getProp (body req) (js ''tags'') = Some tgs"
    and "t \<noteq> []" and "content \<noteq> []"
    and "authorization req = Some authHeader"
    and "bearerToken authHeader \<noteq> []"
    and "getUser svc (bearerToken authHeader) = AuthUser userId"
    and "insertError svc = Some e"
    and "code e = js ''PGRST204''"
    and "includes_js (message e) (js ''user_id'')"
  shows "filter isInsert (calls (create_handler svc req tbl)) =
           [Insert (createdRow svc t content tgs userId tbl),
            Insert ((createdRow svc t content tgs userId tbl)\<lparr>user_id := None\<rparr>)] \<and>
         (\<forall>stored tbl'.
            insertRow (retryError svc) ((createdRow svc t content tgs userId tbl)\<lparr>user_id := None\<rparr>) tbl =
              (Inr stored, tbl') \<longrightarrow>
            reply (create_handler svc req tbl) = Some \<lparr>status = 200, json = Blog stored\<rparr> \<and>
            table (create_handler svc req tbl) = tbl @ [stored] \<and>
            stored = (createdRow svc t content tgs userId tbl)\<lparr>user_id := None\<rparr> \<and>
            user_id stored = None)"
proof -
  let ?row = "createdRow svc t content tgs userId tbl"
  let ?cs = "[GetUser (bearerToken authHeader), SelectLike (slugify svc t @ js ''%'')]"
  from assms(8) have ne: "authHeader \<noteq> []" by (auto simp: bearerToken_Nil)
  have h: "create_handler svc req tbl = saveCreated svc ?row tbl ?cs"
    using assms(1-9) ne
    by (simp add: create_handler_def createAuthenticated_def createFor_def)
  have first: "insertRow (insertError svc) ?row tbl = (Inl e, tbl)"
    using assms(10) by (simp add: insertRow_def)
  have c: "calls (saveCreated svc ?row tbl ?cs) =
      ?cs @ [Insert ?row, Insert (?row\<lparr>user_id := None\<rparr>)]"
    using first assms(11,12)
    by (simp add: saveCreated_def respond_def split: prod.splits sum.splits)
  have ok: "reply (saveCreated svc ?row tbl ?cs) = Some \<lparr>status = 200, json = Blog stored\<rparr> \<and>
      table (saveCreated svc ?row tbl ?cs) = tbl @ [stored] \<and>
      stored = ?row\<lparr>user_id := None\<rparr> \<and> user_id stored = None"
    if "insertRow (retryError svc) (?row\<lparr>user_id := None\<rparr>) tbl = (Inr stored, tbl')"
    for stored tbl'
  proof -
    from insertRow_cases [OF that] have "tbl' = tbl @ [?row\<lparr>user_id := None\<rparr>]"
      and "stored = ?row\<lparr>user_id := None\<rparr>" by auto
    with that first assms(11,12) show ?thesis
      by (simp add: saveCreated_def respond_def)
  qed
  from c have "filter isInsert (calls (create_handler svc req tbl)) =
           [Insert ?row, Insert (?row\<lparr>user_id := None\<rparr>)]"
    by (simp add: h isInsert_def)
  with ok h show ?thesis by simp
qed

lemma likeMatch_percent: "likeMatch [0x25] s"
proof -
  have "likeMatch [] (drop (length s) s)" by simp
  moreover have "length s \<in> set [0..<Suc (length s)]" by simp
  ultimately have "list_ex (\<lambda>k. likeMatch [] (drop k s)) [0..<Suc (length s)]"
    unfolding list_ex_iff by blast
  then show ?thesis by simp
qed

lemma likeMatch_prefix:
  "0x5C \<notin> set p \<Longrightarrow> likeMatch (p @ [0x25]) (p @ rest)"
proof (induction p)
  case Nil
  show ?case using likeMatch_percent by simp
next
  case (Cons c ps)
  then have ih: "likeMatch (ps @ [0x25]) (ps @ rest)" and c: "c \<noteq> 0x5C" by auto
  show ?case
  proof (cases "c = 0x25 \<or> c = 0x2A")
    case True
    have "likeMatch (ps @ [0x25]) (drop 1 ((c # ps) @ rest))" using ih by simp
    moreover have "1 \<in> set [0..<Suc (length ((c # ps) @ rest))]"
      unfolding set_upt by simp
    ultimately have "list_ex (\<lambda>k. likeMatch (ps @ [0x25]) (drop k ((c # ps) @ rest)))
        [0..<Suc (length ((c # ps) @ rest))]"
      unfolding list_ex_iff by blast
    with True show ?thesis by auto
  next
    case False
    with ih c show ?thesis by simp
  qed
qed

lemma tried_step:
  "(case Suc k of 0 \<Rightarrow> n | Suc j \<Rightarrow> suffixed s (c + j)) =
   (case k of 0 \<Rightarrow> suffixed s c | Suc j \<Rightarrow> suffixed s (c + 1 + j))"
  by (cases k) simp_all

lemma whileTaken_least:
  "\<exists>k. whileTaken s ex c n = (case k of 0 \<Rightarrow> n | Suc j \<Rightarrow> suffixed s (c + j)) \<and>
       whileTaken s ex c n \<notin> set ex \<and>
       (\<forall>i<k. (case i of 0 \<Rightarrow> n | Suc j \<Rightarrow> suffixed s (c + j)) \<in> set ex)"
proof (induction s ex c n rule: whileTaken.induct)
  case (1 s ex c n)
  show ?case
  proof (cases "n \<in> set ex")
    case False
    then have "whileTaken s ex c n = n" by (subst whileTaken.simps) simp
    with False show ?thesis by (intro exI [of _ 0]) simp
  next
    case True
    then have w: "whileTaken s ex c n = whileTaken s ex (c + 1) (suffixed s c)"
      by (subst whileTaken.simps) simp
    from "1.IH" [OF True] obtain k where
      k: "whileTaken s ex (c + 1) (suffixed s c) =
            (case k of 0 \<Rightarrow> suffixed s c | Suc j \<Rightarrow> suffixed s (c + 1 + j))"
        "whileTaken s ex (c + 1) (suffixed s c) \<notin> set ex"
        "\<forall>i<k. (case i of 0 \<Rightarrow> suffixed s c | Suc j \<Rightarrow> suffixed s (c + 1 + j)) \<in> set ex"
      by blast
    have "\<forall>i<Suc k. (case i of 0 \<Rightarrow> n | Suc j \<Rightarrow> suffixed s (c + j)) \<in> set ex"
    proof (intro allI impI)
      fix i assume "i < Suc k"
      show "(case i of 0 \<Rightarrow> n | Suc j \<Rightarrow> suffixed s (c + j)) \<in> set ex"
      proof (cases i)
        case 0
        with True show ?thesis by simp
      next
        case (Suc m)
        with \<open>i < Suc k\<close> have "m < k" by simp
        with k(3) have "(case m of 0 \<Rightarrow> suffixed s c | Suc j \<Rightarrow> suffixed s (c + 1 + j)) \<in> set ex"
          by blast
        then show ?thesis unfolding Suc tried_step .
      qed
    qed
    moreover have "whileTaken s ex c n = (case Suc k of 0 \<Rightarrow> n | Suc j \<Rightarrow> suffixed s (c + j))"
      unfolding tried_step using w k(1) by simp
    moreover have "whileTaken s ex c n \<notin> set ex" using w k(2) by simp
    ultimately show ?thesis by blast
  qed
qed

lemma candidate_tried: "candidate s k = (case k of 0 \<Rightarrow> s | Suc j \<Rightarrow> suffixed s (1 + j))"
  by (cases k) (simp_all add: candidate_def)

lemma uniqueSlug_least:
  "\<exists>k. uniqueSlug s (Some ex) = candidate s k \<and> candidate s k \<notin> set ex \<and>
       (\<forall>j<k. candidate s j \<in> set ex)"
proof (cases "ex = []")
  case True
  then have "uniqueSlug s (Some ex) = candidate s 0" by (simp add: uniqueSlug_def candidate_def)
  with True show ?thesis by (intro exI [of _ 0]) simp
next
  case False
  then have u: "uniqueSlug s (Some ex) = whileTaken s ex 1 s" by (simp add: uniqueSlug_def)
  from whileTaken_least [of s ex 1 s] show ?thesis
    unfolding u candidate_tried by metis
qed

lemma candidate_prefix: "\<exists>rest. candidate s k = s @ rest"
  by (simp add: candidate_def suffixed_def)

lemma candidate_matching:
  assumes "0x5C \<notin> set s"
  shows "candidate s k \<in> set (matchingSlugs (s @ js ''%'') tbl) \<longleftrightarrow> candidate s k \<in> set (map slug tbl)"
proof -
  from candidate_prefix obtain rest where "candidate s k = s @ rest" by blast
  with likeMatch_prefix [OF assms, of rest] have "likeMatch (s @ js ''%'') (candidate s k)"
    by (simp add: js_simps)
  then show ?thesis by (auto simp: matchingSlugs_def)
qed

lemma createSlug_least:
  assumes "\<not> selectFails svc" and "0x5C \<notin> set (slugify svc t)"
  shows "\<exists>k. createSlug svc t tbl = candidate (slugify svc t) k \<and>
       candidate (slugify svc t) k \<notin> set (map slug tbl) \<and>
       (\<forall>j<k. candidate (slugify svc t) j \<in> set (map slug tbl))"
proof -
  have c: "createSlug svc t tbl =
      uniqueSlug (slugify svc t) (Some (matchingSlugs (slugify svc t @ js ''%'') tbl))"
    using assms(1) by (simp add: createSlug_def selectLike_def)
  from uniqueSlug_least [of "slugify svc t" "matchingSlugs (slugify svc t @ js ''%'') tbl"]
  show ?thesis unfolding c candidate_matching [OF assms(2)] .
qed

lemma decimal_1: "decimal (Suc 0) = js ''1''"
  by (subst decimal.simps) (simp add: js_simps)

lemma decimal_2: "decimal 2 = js ''2''"
  by (subst decimal.simps) (simp add: js_simps)

lemma freedom_candidates:
  "candidate (js ''freedom'') 0 = js ''freedom''"
  "candidate (js ''freedom'') (Suc 0) = js ''freedom-1''"
  "candidate (js ''freedom'') 2 = js ''freedom-2''"
  by (simp_all add: candidate_def suffixed_def decimal_1 decimal_2) (simp_all add: js_simps)

lemma freedom_distinct:
  "js ''freedom-2'' \<noteq> js ''freedom''" "js ''freedom-2'' \<noteq> js ''freedom-1''"
  "0x5C \<notin> set (js ''freedom'')"
  by (simp_all add: js_simps)

lemma least_is_2:
  assumes "c0 \<in> S" "c1 \<in> S" "c2 \<notin> S"
    and "cand 0 = c0" "cand (Suc 0) = c1" "cand 2 = c2"
    and "cand k \<notin> S" and "\<forall>j<k. cand j \<in> S"
  shows "k = (2::nat)"
proof (rule ccontr)
  assume "k \<noteq> 2"
  then consider "k = 0" | "k = Suc 0" | "2 < k" by linarith
  then show False
  proof cases
    case 1 with assms show ?thesis by auto
  next
    case 2 with assms show ?thesis by auto
  next
    case 3 with assms show ?thesis by auto
  qed
qed

text \<open>
  C3. On the manual create path the base slug is \<open>slugify\<close> of the title,
  whatever the table holds, and the slug chosen is the first of base,
  base\<open>-1\<close>, base\<open>-2\<close>, ... that no stored post has. With the stored slugs
  \<open>freedom\<close> and \<open>freedom-1\<close>, the title \<open>Freedom\<close> gets \<open>freedom-2\<close>.
  The slug query is taken to succeed, and the base slug to hold no backslash
  (the strict mode of \<open>slugify\<close> emits letters, digits and hyphens only).
\<close>

theorem slug_disambiguation:
  assumes "\<not> selectFails svc" and "0x5C \<notin> set (slugify svc t)"
  shows "createSlug svc t [] = slugify svc t \<and>
         (\<exists>k. createSlug svc t tbl = candidate (slugify svc t) k \<and>
            candidate (slugify svc t) k \<notin> set (map slug tbl) \<and>
            (\<forall>j<k. candidate (slugify svc t) j \<in> set (map slug tbl))) \<and>
         (t = js ''Freedom'' \<longrightarrow> slugify svc t = js ''freedom'' \<longrightarrow>
            set (map slug tbl) = {js ''freedom'', js ''freedom-1''} \<longrightarrow>
            createSlug svc t tbl = js ''freedom-2'')"
proof (intro conjI impI)
  show "createSlug svc t [] = slugify svc t"
    by (simp add: createSlug_def selectLike_def matchingSlugs_def uniqueSlug_def)
next
  show "\<exists>k. createSlug svc t tbl = candidate (slugify svc t) k \<and>
            candidate (slugify svc t) k \<notin> set (map slug tbl) \<and>
            (\<forall>j<k. candidate (slugify svc t) j \<in> set (map slug tbl))"
    using assms by (rule createSlug_least)
next
  assume s: "slugify svc t = js ''freedom''"
    and S: "set (map slug tbl) = {js ''freedom'', js ''freedom-1''}"
  from createSlug_least [OF assms, of tbl] s obtain k where
    k: "createSlug svc t tbl = candidate (js ''freedom'') k"
      "candidate (js ''freedom'') k \<notin> set (map slug tbl)"
      "\<forall>j<k. candidate (js ''freedom'') j \<in> set (map slug tbl)"
    by auto
  have "k = 2"
  proof (rule least_is_2 [where cand = "candidate (js ''freedom'')" and S = "set (map slug tbl)"])
    show "js ''freedom'' \<in> set (map slug tbl)" "js ''freedom-1'' \<in> set (map slug tbl)"
      using S by simp_all
    show "js ''freedom-2'' \<notin> set (map slug tbl)"
      using S freedom_distinct by simp
    show "candidate (js ''freedom'') 0 = js ''freedom''"
      "candidate (js ''freedom'') (Suc 0) = js ''freedom-1''"
      "candidate (js ''freedom'') 2 = js ''freedom-2''"
      using freedom_candidates by simp_all
    show "candidate (js ''freedom'') k \<notin> set (map slug tbl)" by (rule k(2))
    show "\<forall>j<k. candidate (js ''freedom'') j \<in> set (map slug tbl)" by (rule k(3))
  qed
  with k(1) show "createSlug svc t tbl = js ''freedom-2''"
    by (simp add: freedom_candidates)
qed

lemma demo_generate_reaches_save:
  "generate_handler demoServices (wordRequest (Some (js ''Bearer secret'')) (js ''freedom'')) tbl =
     saveGenerated demoServices (js ''freedom'') (js ''u1'') (js ''# Freedom'') tbl
       [GetUser (js ''secret''), Fetch (js ''freedom'')]"
proof -
  have usr: "getUser demoServices (js ''secret'') = AuthUser (js ''u1'')"
    by (simp add: demoServices_def)
  have gen: "generateBlogWithAI demoServices (js ''freedom'') = Inr (JStr (js ''# Freedom''))"
    by (simp add: generateBlogWithAI_def keyConfigured_def demoServices_def js_simps)
  have fc: "fetchCalls demoServices (js ''freedom'') = [Fetch (js ''freedom'')]"
    by (simp add: fetchCalls_def keyConfigured_def demoServices_def js_simps)
  have ne: "js ''Bearer secret'' \<noteq> []" "js ''secret'' \<noteq> []" by (simp_all add: js_simps)
  have auth: "generateAuthenticated demoServices
       (wordRequest (Some (js ''Bearer secret'')) (js ''freedom'')) (js ''freedom'') tbl =
     saveGenerated demoServices (js ''freedom'') (js ''u1'') (js ''# Freedom'') tbl
       [GetUser (js ''secret''), Fetch (js ''freedom'')]"
    by (simp add: generateAuthenticated_def wordRequest_def bearer_secret usr ne generateFor_def gen fc)
  show ?thesis
    by (simp add: generate_handler_def wordRequest_method wordRequest_word validate_freedom auth)
qed

text \<open>The manual create path on a table that already holds the slug \<open>freedom\<close>.\<close>

lemma create_slug_after_collision:
  "createSlug demoServices (js ''Freedom'') [demoRow] = js ''freedom-1''"
proof -
  have m: "matchingSlugs (js ''freedom%'') [demoRow] = [js ''freedom'']"
    by (simp add: matchingSlugs_def demoRow_def js_simps)
  have w: "whileTaken (js ''freedom'') [js ''freedom''] (Suc 0) (js ''freedom'') = js ''freedom-1''"
    by (subst whileTaken.simps, simp, subst whileTaken.simps)
       (simp add: suffixed_def decimal_1 js_simps)
  have s: "slugify demoServices (js ''Freedom'') = js ''freedom''"
    by (simp add: demoServices_def demo_slug)
  have p: "js ''freedom'' @ js ''%'' = js ''freedom%''" by (simp add: js_simps)
  have f: "\<not> selectFails demoServices" by (simp add: demoServices_def)
  show ?thesis
    using f by (simp add: createSlug_def s p selectLike_def m uniqueSlug_def w)
qed

text \<open>
  C4 fails on the generate path: with a post of slug \<open>freedom\<close> stored, a
  generation whose title is \<open>Freedom\<close> sends the slug \<open>freedom\<close> again; the
  insert is refused and the answer is 500, where the manual path would have
  stored \<open>freedom-1\<close>.
\<close>

theorem generate_slug_collision:
  "slug demoRow \<in> set (map slug [demoRow]) \<and>
   generate_handler demoServices (wordRequest (Some (js ''Bearer secret'')) (js ''freedom'')) [demoRow] =
     respond 500 (Message ''Failed to save blog'') [demoRow]
       [GetUser (js ''secret''), Fetch (js ''freedom''), Insert demoRow]"
proof -
  have "insertError demoServices = None" by (simp add: demoServices_def)
  moreover have "slug demoRow \<in> set (map slug [demoRow])" by simp
  ultimately show ?thesis
    by (simp add: demo_generate_reaches_save saveGenerated_def demo_generatedRow insertRow_def)
qed

lemma generate_slug_is_base:
  "written (generate_handler svc req tbl) tbl row \<Longrightarrow> slug row = slugify svc (title row)"
  unfolding written_def
  using generate_handler_inserts [of row svc req tbl] generate_handler_table [of row svc req tbl]
  by (auto simp: generatedRow_def)

lemma create_slug_is_fresh:
  assumes "written (create_handler svc req tbl) tbl row"
    and "\<not> selectFails svc" and "0x5C \<notin> set (slugify svc (title row))"
  shows "slug row \<notin> set (map slug tbl)"
proof -
  from assms(1) obtain t content tgs u where
    "row = createdRow svc t content tgs u tbl \<or>
     row = (createdRow svc t content tgs u tbl)\<lparr>user_id := None\<rparr>"
    unfolding written_def using create_handler_inserts create_handler_table by metis
  then have r: "title row = t" "slug row = createSlug svc t tbl"
    by (auto simp: createdRow_def)
  from createSlug_least [OF assms(2), of t tbl] assms(3) r(1)
  have "createSlug svc t tbl \<notin> set (map slug tbl)" by metis
  with r(2) show ?thesis by simp
qed

theorem slug_disambiguation_witness:
  "\<not> selectFails demoServices \<and> 0x5C \<notin> set (slugify demoServices (js ''Freedom'')) \<and>
   slugify demoServices (js ''Freedom'') = js ''freedom'' \<and>
   set (map slug [takenRow (js ''freedom''), takenRow (js ''freedom-1'')]) =
     {js ''freedom'', js ''freedom-1''} \<and>
   createSlug demoServices (js ''Freedom'') [takenRow (js ''freedom''), takenRow (js ''freedom-1'')] =
     js ''freedom-2''"
proof -
  have a: "\<not> selectFails demoServices" by (simp add: demoServices_def)
  have s: "slugify demoServices (js ''Freedom'') = js ''freedom''"
    by (simp add: demoServices_def demo_slug)
  have b: "0x5C \<notin> set (slugify demoServices (js ''Freedom''))"
    unfolding s by (rule freedom_distinct)
  have S: "set (map slug [takenRow (js ''freedom''), takenRow (js ''freedom-1'')]) =
     {js ''freedom'', js ''freedom-1''}"
    by (simp add: takenRow_def)
  from slug_disambiguation [OF a b, of "[takenRow (js ''freedom''), takenRow (js ''freedom-1'')]"]
    a b s S
  show ?thesis by blast
qed

theorem schema_cache_retry_witness:
  "reply (create_handler (demoServices\<lparr>insertError := Some schemaCacheError\<rparr>)
     (createRequest (Some (js ''Bearer secret'')) (js ''My Post'') (js ''Hello'') (JStr (js ''a, b,''))) []) =
     Some \<lparr>status = 200, json = Blog (createRow\<lparr>user_id := None\<rparr>)\<rparr> \<and>
   table (create_handler (demoServices\<lparr>insertError := Some schemaCacheError\<rparr>)
     (createRequest (Some (js ''Bearer secret'')) (js ''My Post'') (js ''Hello'') (JStr (js ''a, b,''))) []) =
     [createRow\<lparr>user_id := None\<rparr>] \<and>
   filter isInsert (calls (create_handler (demoServices\<lparr>insertError := Some schemaCacheError\<rparr>)
     (createRequest (Some (js ''Bearer secret'')) (js ''My Post'') (js ''Hello'') (JStr (js ''a, b,''))) [])) =
     [Insert createRow, Insert (createRow\<lparr>user_id := None\<rparr>)]"
proof -
  let ?svc = "demoServices\<lparr>insertError := Some schemaCacheError\<rparr>"
  let ?req = "createRequest (Some (js ''Bearer secret'')) (js ''My Post'') (js ''Hello'') (JStr (js ''a, b,''))"
  have ne: "js ''My Post'' \<noteq> []" "js ''Hello'' \<noteq> []" "bearerToken (js ''Bearer secret'') \<noteq> []"
    by (simp_all add: bearer_secret) (simp_all add: js_simps)
  have usr: "getUser ?svc (bearerToken (js ''Bearer secret'')) = AuthUser (js ''u1'')"
    by (simp add: bearer_secret demoServices_def)
  have e: "insertError ?svc = Some schemaCacheError" by simp
  have c: "code schemaCacheError = js ''PGRST204''" by (simp add: schemaCacheError_def)
  have m: "includes_js (message schemaCacheError) (js ''user_id'')"
    by (simp add: schemaCacheError_def js_simps startsWith_def)
  have retry: "insertRow (retryError ?svc) (createRow\<lparr>user_id := None\<rparr>) [] =
      (Inr (createRow\<lparr>user_id := None\<rparr>), [] @ [createRow\<lparr>user_id := None\<rparr>])"
    by (simp add: insertRow_def demoServices_def)
  note t = schema_cache_retry [of ?req "js ''My Post''" "js ''Hello''" "JStr (js ''a, b,'')"
      "js ''Bearer secret''" ?svc "js ''u1''" schemaCacheError "[]",
      OF createRequest_props(1) createRequest_props(3) createRequest_props(4)
        createRequest_props(5) ne(1) ne(2) createRequest_props(2) ne(3) usr e c m]
  from t retry show ?thesis
    unfolding demo_createdRow by auto
qed

subsection \<open>Lines, trimming and lower case\<close>

lemma split_nonempty: "split sep s \<noteq> []"
  by (induction s) (auto split: list.splits)

lemma split_no_sep: "l \<in> set (split sep s) \<Longrightarrow> sep \<notin> set l"
proof (induction s arbitrary: l)
  case Nil
  then show ?case by simp
next
  case (Cons c cs)
  show ?case
  proof (cases "c = sep")
    case True
    with Cons show ?thesis by auto
  next
    case False
    obtain a as where s: "split sep cs = a # as"
      using split_nonempty [of sep cs] by (cases "split sep cs") auto
    with False Cons.prems have "l = c # a \<or> l \<in> set as" by simp
    then show ?thesis
    proof
      assume "l = c # a"
      moreover from s Cons.IH [of a] have "sep \<notin> set a" by simp
      ultimately show ?thesis using False by auto
    next
      assume "l \<in> set as"
      with s Cons.IH [of l] show ?thesis by simp
    qed
  qed
qed

lemma split_join: "concat (map ((#) sep) (split sep s)) = sep # s"
proof (induction s)
  case Nil
  show ?case by simp
next
  case (Cons c cs)
  show ?case
  proof (cases "c = sep")
    case True
    with Cons show ?thesis by simp
  next
    case False
    obtain a as where s: "split sep cs = a # as"
      using split_nonempty [of sep cs] by (cases "split sep cs") auto
    with Cons have "sep # a @ concat (map ((#) sep) as) = sep # cs" by simp
    then have "a @ concat (map ((#) sep) as) = cs" by simp
    with False s show ?thesis by simp
  qed
qed

lemma dropWhile_all: "dropWhile P xs = [] \<longleftrightarrow> (\<forall>x \<in> set xs. P x)"
  by (induction xs) auto

lemma trim_empty_iff: "trim l = [] \<longleftrightarrow> (\<forall>c \<in> set l. isWhiteSpace c)"
proof -
  have "trim l = [] \<longleftrightarrow> (\<forall>c \<in> set (dropWhile isWhiteSpace l). isWhiteSpace c)"
    by (simp add: trim_def dropWhile_all)
  also have "\<dots> \<longleftrightarrow> dropWhile isWhiteSpace l = []"
  proof
    assume a: "\<forall>c \<in> set (dropWhile isWhiteSpace l). isWhiteSpace c"
    show "dropWhile isWhiteSpace l = []"
    proof (rule ccontr)
      assume n: "dropWhile isWhiteSpace l \<noteq> []"
      then have "\<not> isWhiteSpace (hd (dropWhile isWhiteSpace l))" by (rule hd_dropWhile)
      moreover from n have "hd (dropWhile isWhiteSpace l) \<in> set (dropWhile isWhiteSpace l)"
        by simp
      ultimately show False using a by blast
    qed
  next
    assume "dropWhile isWhiteSpace l = []"
    then show "\<forall>c \<in> set (dropWhile isWhiteSpace l). isWhiteSpace c"
      by (simp only: list.set ball_empty)
  qed
  also have "\<dots> \<longleftrightarrow> (\<forall>c \<in> set l. isWhiteSpace c)" by (rule dropWhile_all)
  finally show ?thesis .
qed

lemma trim_shape:
  "\<exists>pre post. s = pre @ trim s @ post \<and> (\<forall>c \<in> set pre. isWhiteSpace c) \<and>
     (\<forall>c \<in> set post. isWhiteSpace c) \<and>
     (trim s = [] \<or> (\<not> isWhiteSpace (hd (trim s)) \<and> \<not> isWhiteSpace (last (trim s))))"
proof -
  let ?P = isWhiteSpace
  let ?d = "dropWhile ?P s"
  let ?pre = "takeWhile ?P s"
  let ?post = "rev (takeWhile ?P (rev ?d))"
  have t: "trim s = rev (dropWhile ?P (rev ?d))" by (simp add: trim_def)
  have e: "takeWhile ?P (rev ?d) @ dropWhile ?P (rev ?d) = rev ?d"
    by (rule takeWhile_dropWhile_id)
  have "rev (takeWhile ?P (rev ?d) @ dropWhile ?P (rev ?d)) = ?d"
    by (simp only: e rev_rev_ident)
  then have "rev (dropWhile ?P (rev ?d)) @ rev (takeWhile ?P (rev ?d)) = ?d"
    by (simp only: rev_append)
  then have d: "?d = trim s @ ?post" by (simp only: t)
  have "s = ?pre @ ?d" by simp
  with d have 1: "s = ?pre @ trim s @ ?post" by simp
  have 2: "\<forall>c \<in> set ?pre. ?P c" by (auto dest: set_takeWhileD)
  have 3: "\<forall>c \<in> set ?post. ?P c" by (auto dest: set_takeWhileD)
  have 4: "\<not> ?P (hd (trim s)) \<and> \<not> ?P (last (trim s))" if ne: "trim s \<noteq> []"
  proof
    from ne have dn: "dropWhile ?P (rev ?d) \<noteq> []" by (simp add: t)
    then have "\<not> ?P (hd (dropWhile ?P (rev ?d)))" by (rule hd_dropWhile)
    with dn show "\<not> ?P (last (trim s))" by (simp add: t last_rev)
    from ne d have "?d \<noteq> []" by (metis append_is_Nil_conv)
    then have "\<not> ?P (hd ?d)" by (rule hd_dropWhile)
    moreover from ne d have "hd ?d = hd (trim s)" by (metis hd_append2)
    ultimately show "\<not> ?P (hd (trim s))" by simp
  qed
  from 1 2 3 4 show ?thesis by blast
qed

lemma toLowerCase_length: "length (toLowerCase s) = length s"
  by (simp add: toLowerCase_def)

lemma toLowerCase_nth:
  "i < length s \<Longrightarrow>
   toLowerCase s ! i = (if 0x41 \<le> s ! i \<and> s ! i \<le> 0x5A then s ! i + 0x20 else s ! i)"
  by (simp add: toLowerCase_def)

lemma fallbackTitle_eq: "fallbackTitle w = js ''Blog about '' @ w"
  by (simp add: fallbackTitle_def)

subsection \<open>Rows of the concrete environment\<close>

lemma generateAuthenticated_written:
  "written (generateAuthenticated svc req w tbl) tbl row \<Longrightarrow>
     \<exists>u md. generateBlogWithAI svc w = Inr (JStr md) \<and> row = generatedRow svc w u md"
  unfolding written_def
  by (auto simp: generateAuthenticated_def respond_def
      split: option.splits if_splits auth_reply.splits
      dest!: generateFor_inserts generateFor_table)

lemma generate_handler_written:
  assumes "written (generate_handler svc req tbl) tbl row"
  shows "\<exists>s u md. getProp (body req) (js ''word'') = Some (JStr s) \<and>
      validateWord (JStr s) = Inr (trim s) \<and>
      generateBlogWithAI svc (trim s) = Inr (JStr md) \<and>
      row = generatedRow svc (trim s) u md"
proof -
  from assms obtain word w where p: "getProp (body req) (js ''word'') = Some word"
    and v: "validateWord word = Inr w"
    and a: "written (generateAuthenticated svc req w tbl) tbl row"
    unfolding written_def
    by (auto simp: generate_handler_def respond_def split: option.splits if_splits sum.splits)
  from validateWord_Inr [OF v] obtain s where s: "word = JStr s" "w = trim s" by blast
  from generateAuthenticated_written [OF a] p v s show ?thesis by auto
qed

lemma demo_generate_save:
  assumes "validateWord (JStr w) = Inr w"
  shows "generate_handler demoServices (wordRequest (Some (js ''Bearer secret'')) w) tbl =
     saveGenerated demoServices w (js ''u1'') (js ''# Freedom'') tbl
       [GetUser (js ''secret''), Fetch w]"
proof -
  have usr: "getUser demoServices (js ''secret'') = AuthUser (js ''u1'')"
    by (simp add: demoServices_def)
  have gen: "generateBlogWithAI demoServices w = Inr (JStr (js ''# Freedom''))"
    by (simp add: generateBlogWithAI_def keyConfigured_def demoServices_def js_simps)
  have fc: "fetchCalls demoServices w = [Fetch w]"
    by (simp add: fetchCalls_def keyConfigured_def demoServices_def js_simps)
  have ne: "js ''Bearer secret'' \<noteq> []" "js ''secret'' \<noteq> []" by (simp_all add: js_simps)
  have auth: "generateAuthenticated demoServices
       (wordRequest (Some (js ''Bearer secret'')) w) w tbl =
     saveGenerated demoServices w (js ''u1'') (js ''# Freedom'') tbl
       [GetUser (js ''secret''), Fetch w]"
    by (simp add: generateAuthenticated_def wordRequest_def bearer_secret usr ne generateFor_def gen fc)
  show ?thesis
    by (simp add: generate_handler_def wordRequest_method wordRequest_word assms auth)
qed

lemma demo_generate_written:
  assumes "validateWord (JStr w) = Inr w"
  shows "written (generate_handler demoServices (wordRequest (Some (js ''Bearer secret'')) w) tbl) tbl
     (generatedRow demoServices w (js ''u1'') (js ''# Freedom''))"
  by (simp add: written_def demo_generate_save [OF assms] saveGenerated_calls)

lemma saveCreated_sends: "Insert row \<in> set (calls (saveCreated svc row tbl cs))"
  by (auto simp: saveCreated_def respond_def split: prod.splits sum.splits)

lemma demo_create_save:
  assumes "t \<noteq> []" and "content \<noteq> []"
  shows "create_handler demoServices
     (createRequest (Some (js ''Bearer secret'')) t content tgs) tbl =
   saveCreated demoServices (createdRow demoServices t content tgs (js ''u1'') tbl) tbl
     [GetUser (js ''secret''), SelectLike (slugify demoServices t @ js ''%'')]"
proof -
  have usr: "getUser demoServices (js ''secret'') = AuthUser (js ''u1'')"
    by (simp add: demoServices_def)
  have ne: "js ''Bearer secret'' \<noteq> []" "js ''secret'' \<noteq> []"
    by (simp_all add: js_simps)
  have auth: "createAuthenticated demoServices
       (createRequest (Some (js ''Bearer secret'')) t content tgs)
       (JStr t) (JStr content) tgs tbl =
     saveCreated demoServices (createdRow demoServices t content tgs (js ''u1'') tbl) tbl
       [GetUser (js ''secret''), SelectLike (slugify demoServices t @ js ''%'')]"
    by (simp add: createAuthenticated_def createRequest_props bearer_secret usr ne createFor_def)
  show ?thesis
    by (simp add: create_handler_def createRequest_props assms auth)
qed

lemma demo_create_written:
  assumes "t \<noteq> []" and "content \<noteq> []"
  shows "written (create_handler demoServices
     (createRequest (Some (js ''Bearer secret'')) t content tgs) tbl) tbl
     (createdRow demoServices t content tgs (js ''u1'') tbl)"
  by (simp add: written_def demo_create_save [OF assms] saveCreated_sends)

lemma validate_Freedom: "validateWord (JStr (js ''Freedom'')) = Inr (js ''Freedom'')"
  by (simp add: validateWord_def string_defs)

lemma headedText_lines:
  "split 0xA headedText = [js ''  '' @ [0x9, 0xD], [], js ''## Why Tech Matters'', js ''body'']"
  by (simp add: headedText_def js_simps)

lemma emptyHeadingText_lines: "split 0xA emptyHeadingText = [js '' '', js ''#  '']"
  by (simp add: emptyHeadingText_def js_simps)

lemma blankText_lines: "split 0xA blankText = [js ''  '', [0x9]]"
  by (simp add: blankText_def js_simps)

text \<open>
  C5. The lines of the generated text are its pieces between line feeds. The
  extracted title is never empty. When no line has a character that is not
  whitespace, it is \<open>Blog about \<close> followed by the word. Otherwise it is
  the first line that has one, with its leading run of \<open>#\<close> (and the
  whitespace after that run) removed, or again \<open>Blog about \<close> followed by
  the word when nothing is left. Every row the generate handler writes has as
  its title the title extracted from the provider's text for the trimmed word
  of the request, so the stored title is never empty.
\<close>

theorem title_extraction:
  "extractTitle md w \<noteq> [] \<and>
   (\<forall>l \<in> set (split 0xA md). 0xA \<notin> set l) \<and>
   concat (map ((#) 0xA) (split 0xA md)) = 0xA # md \<and>
   ((\<forall>l \<in> set (split 0xA md). \<forall>c \<in> set l. isWhiteSpace c) \<longrightarrow>
      extractTitle md w = js ''Blog about '' @ w) \<and>
   (\<forall>i < length (split 0xA md).
      (\<exists>c \<in> set (split 0xA md ! i). \<not> isWhiteSpace c) \<and>
      (\<forall>j<i. \<forall>c \<in> set (split 0xA md ! j). isWhiteSpace c) \<longrightarrow>
      extractTitle md w =
        (if stripHeading (split 0xA md ! i) = [] then js ''Blog about '' @ w
         else stripHeading (split 0xA md ! i))) \<and>
   (\<forall>n rest. rest = [] \<or> hd rest \<noteq> 0x23 \<longrightarrow>
      stripHeading (replicate n 0x23 @ rest) =
        (if n = 0 then rest else dropWhile isWhiteSpace rest)) \<and>
   (\<forall>row. written (generate_handler svc req tbl) tbl row \<longrightarrow>
      (\<exists>s content. getProp (body req) (js ''word'') = Some (JStr s) \<and>
         generateBlogWithAI svc (trim s) = Inr (JStr content) \<and>
         title row = extractTitle content (trim s) \<and> title row \<noteq> []))"
proof (intro conjI allI impI ballI)
  show "extractTitle md w \<noteq> []" by (rule extractTitle_nonempty)
next
  fix l assume "l \<in> set (split 0xA md)"
  then show "0xA \<notin> set l" by (rule split_no_sep)
next
  show "concat (map ((#) 0xA) (split 0xA md)) = 0xA # md" by (rule split_join)
next
  assume "\<forall>l \<in> set (split 0xA md). \<forall>c \<in> set l. isWhiteSpace c"
  then have "\<forall>l \<in> set (split 0xA md). trim l = []" by (simp add: trim_empty_iff)
  then show "extractTitle md w = js ''Blog about '' @ w"
    by (simp add: extractTitle_blank fallbackTitle_eq)
next
  fix i
  assume i: "i < length (split 0xA md)"
    and h: "(\<exists>c \<in> set (split 0xA md ! i). \<not> isWhiteSpace c) \<and>
      (\<forall>j<i. \<forall>c \<in> set (split 0xA md ! j). isWhiteSpace c)"
  from h have "trim (split 0xA md ! i) \<noteq> []" "\<forall>j<i. trim (split 0xA md ! j) = []"
    by (simp_all add: trim_empty_iff)
  from extractTitle_first [OF i this, of w]
  show "extractTitle md w =
        (if stripHeading (split 0xA md ! i) = [] then js ''Blog about '' @ w
         else stripHeading (split 0xA md ! i))"
    by (simp add: fallbackTitle_eq)
next
  fix n :: nat and rest :: jsstring
  assume "rest = [] \<or> hd rest \<noteq> 0x23"
  then show "stripHeading (replicate n 0x23 @ rest) =
        (if n = 0 then rest else dropWhile isWhiteSpace rest)"
    using stripHeading_plain [of rest] stripHeading_marked [of n rest] by auto
next
  fix row
  assume "written (generate_handler svc req tbl) tbl row"
  from generate_handler_written [OF this]
  show "\<exists>s content. getProp (body req) (js ''word'') = Some (JStr s) \<and>
         generateBlogWithAI svc (trim s) = Inr (JStr content) \<and>
         title row = extractTitle content (trim s) \<and> title row \<noteq> []"
    by (auto simp: generatedRow_def extractTitle_nonempty)
qed

theorem title_extraction_witness:
  "split 0xA headedText = [js ''  '' @ [0x9, 0xD], [], js ''## Why Tech Matters'', js ''body''] \<and>
   extractTitle headedText (js ''tech'') = js ''Why Tech Matters'' \<and>
   extractTitle emptyHeadingText (js ''tech'') = js ''Blog about tech'' \<and>
   extractTitle blankText (js ''tech'') = js ''Blog about tech'' \<and>
   js ''Blog about tech'' =
     [0x42, 0x6C, 0x6F, 0x67, 0x20, 0x61, 0x62, 0x6F, 0x75, 0x74, 0x20, 0x74, 0x65, 0x63, 0x68] \<and>
   title (generatedRow demoServices (js ''Freedom'') (js ''u1'') (js ''# Freedom'')) = js ''Freedom''"
proof -
  let ?req = "wordRequest (Some (js ''Bearer secret'')) (js ''Freedom'')"
  note blank = title_extraction [THEN conjunct2, THEN conjunct2, THEN conjunct2, THEN conjunct1,
      rule_format]
  note first = title_extraction [THEN conjunct2, THEN conjunct2, THEN conjunct2, THEN conjunct2,
      THEN conjunct1, rule_format]
  note rows = title_extraction [THEN conjunct2, THEN conjunct2, THEN conjunct2, THEN conjunct2,
      THEN conjunct2, THEN conjunct2, rule_format]
  have l1: "2 < length (split 0xA headedText)" by (simp add: headedText_lines)
  have n1: "\<exists>c \<in> set (split 0xA headedText ! 2). \<not> isWhiteSpace c"
    by (simp add: headedText_lines js_simps isWhiteSpace_def)
  have b1: "\<forall>j<2. \<forall>c \<in> set (split 0xA headedText ! j). isWhiteSpace c"
  proof (intro allI impI)
    fix j :: nat
    assume "j < 2"
    then consider "j = 0" | "j = 1" by linarith
    then show "\<forall>c \<in> set (split 0xA headedText ! j). isWhiteSpace c"
      by cases (simp_all add: headedText_lines js_simps isWhiteSpace_def)
  qed
  from first [of 2 headedText "js ''tech''", OF l1 conjI [OF n1 b1]]
  have a: "extractTitle headedText (js ''tech'') = js ''Why Tech Matters''"
    by (simp add: headedText_lines stripHeading_def js_simps isWhiteSpace_def)
  have l2: "1 < length (split 0xA emptyHeadingText)" by (simp add: emptyHeadingText_lines)
  have n2: "\<exists>c \<in> set (split 0xA emptyHeadingText ! 1). \<not> isWhiteSpace c"
    by (simp add: emptyHeadingText_lines js_simps isWhiteSpace_def)
  have b2: "\<forall>j<1. \<forall>c \<in> set (split 0xA emptyHeadingText ! j). isWhiteSpace c"
    by (simp add: emptyHeadingText_lines js_simps isWhiteSpace_def)
  from first [of 1 emptyHeadingText "js ''tech''", OF l2 conjI [OF n2 b2]]
  have b: "extractTitle emptyHeadingText (js ''tech'') = js ''Blog about tech''"
    by (simp add: emptyHeadingText_lines stripHeading_def js_simps isWhiteSpace_def)
  have h3: "\<forall>l \<in> set (split 0xA blankText). \<forall>c \<in> set l. isWhiteSpace c"
    by (simp add: blankText_lines js_simps isWhiteSpace_def)
  from blank [of blankText "js ''tech''", OF h3 [rule_format]]
  have c: "extractTitle blankText (js ''tech'') = js ''Blog about tech''"
    by (simp add: js_simps)
  have w: "written (generate_handler demoServices ?req []) []
     (generatedRow demoServices (js ''Freedom'') (js ''u1'') (js ''# Freedom''))"
    by (rule demo_generate_written [OF validate_Freedom])
  have g: "generateBlogWithAI demoServices x = Inr (JStr (js ''# Freedom''))" for x
    by (simp add: generateBlogWithAI_def keyConfigured_def demoServices_def js_simps)
  have tr: "trim (js ''Freedom'') = js ''Freedom''" by (simp add: string_defs)
  from rows [OF w] obtain s content where
    r1: "getProp (body ?req) (js ''word'') = Some (JStr s)" and
    r2: "generateBlogWithAI demoServices (trim s) = Inr (JStr content)" and
    r3: "title (generatedRow demoServices (js ''Freedom'') (js ''u1'') (js ''# Freedom'')) =
       extractTitle content (trim s)"
    by blast
  from r1 have s: "s = js ''Freedom''" by (simp add: wordRequest_word)
  from r2 have "content = js ''# Freedom''" by (simp add: g)
  with r3 s have "title (generatedRow demoServices (js ''Freedom'') (js ''u1'') (js ''# Freedom'')) =
      extractTitle (js ''# Freedom'') (js ''Freedom'')"
    by (simp add: tr)
  then have d: "title (generatedRow demoServices (js ''Freedom'') (js ''u1'') (js ''# Freedom'')) =
      js ''Freedom''"
    by (simp add: extractTitle_def stripHeading_def string_defs)
  have e: "js ''Blog about tech'' =
     [0x42, 0x6C, 0x6F, 0x67, 0x20, 0x61, 0x62, 0x6F, 0x75, 0x74, 0x20, 0x74, 0x65, 0x63, 0x68]"
    by (simp add: js_simps)
  show ?thesis
    using headedText_lines a b c d e by (intro conjI)
qed

text \<open>
  C7. A row written by the generate handler carries the tags
  \<open>[lowercase(word), "ai-generated"]\<close>: the word is the trimmed word of the
  request, its lower-case form has the same length, each capital letter moved
  to its small letter and every other character kept, and so only the letters
  a to z. A row written by the manual create handler carries the tags of the
  request followed by \<open>manual\<close>: the elements of an array as they are; of a
  string its pieces between commas, trimmed, the empty ones dropped; nothing
  for any other value.
\<close>

theorem stored_tags:
  "(written (generate_handler svc req tbl) tbl row \<longrightarrow>
      (\<exists>s. getProp (body req) (js ''word'') = Some (JStr s) \<and>
           validateWord (JStr s) = Inr (trim s) \<and>
           tags row = [JStr (toLowerCase (trim s)), JStr (js ''ai-generated'')] \<and>
           length (toLowerCase (trim s)) = length (trim s) \<and>
           (\<forall>i < length (trim s).
              toLowerCase (trim s) ! i =
                (if 0x41 \<le> trim s ! i \<and> trim s ! i \<le> 0x5A then trim s ! i + 0x20
                 else trim s ! i)) \<and>
           (\<forall>c \<in> set (toLowerCase (trim s)). 0x61 \<le> c \<and> c \<le> 0x7A))) \<and>
   (written (create_handler svc req tbl) tbl row \<longrightarrow>
      (\<exists>tgs. getProp (body req) (js ''tags'') = Some tgs \<and>
         (\<forall>xs. tgs = JArr xs \<longrightarrow> tags row = xs @ [JStr (js ''manual'')]) \<and>
         (\<forall>s. tgs = JStr s \<longrightarrow>
            tags row =
              map JStr (filter (\<lambda>tag. tag \<noteq> []) (map trim (split 0x2C s))) @
              [JStr (js ''manual'')]) \<and>
         ((\<forall>xs. tgs \<noteq> JArr xs) \<and> (\<forall>s. tgs \<noteq> JStr s) \<longrightarrow>
            tags row = [JStr (js ''manual'')]))) \<and>
   (\<forall>l \<in> set (split 0x2C t). 0x2C \<notin> set l) \<and>
   concat (map ((#) 0x2C) (split 0x2C t)) = 0x2C # t \<and>
   (\<exists>pre post. t = pre @ trim t @ post \<and> (\<forall>c \<in> set pre. isWhiteSpace c) \<and>
      (\<forall>c \<in> set post. isWhiteSpace c) \<and>
      (trim t = [] \<or> (\<not> isWhiteSpace (hd (trim t)) \<and> \<not> isWhiteSpace (last (trim t)))))"
proof (intro conjI impI)
  assume "written (generate_handler svc req tbl) tbl row"
  from generate_handler_written [OF this] obtain s u md where
    p: "getProp (body req) (js ''word'') = Some (JStr s)"
    and v: "validateWord (JStr s) = Inr (trim s)"
    and r: "row = generatedRow svc (trim s) u md"
    by blast
  from validateWord_Inr [OF v] have "lettersOnly (trim s)" by auto
  then have "isLowerCase (toLowerCase (trim s))" by (rule toLowerCase_lower)
  then have "\<forall>c \<in> set (toLowerCase (trim s)). 0x61 \<le> c \<and> c \<le> 0x7A"
    by (simp add: isLowerCase_def list_all_iff)
  with p v r toLowerCase_length [of "trim s"] toLowerCase_nth [of _ "trim s"]
  show "\<exists>s. getProp (body req) (js ''word'') = Some (JStr s) \<and>
           validateWord (JStr s) = Inr (trim s) \<and>
           tags row = [JStr (toLowerCase (trim s)), JStr (js ''ai-generated'')] \<and>
           length (toLowerCase (trim s)) = length (trim s) \<and>
           (\<forall>i < length (trim s).
              toLowerCase (trim s) ! i =
                (if 0x41 \<le> trim s ! i \<and> trim s ! i \<le> 0x5A then trim s ! i + 0x20
                 else trim s ! i)) \<and>
           (\<forall>c \<in> set (toLowerCase (trim s)). 0x61 \<le> c \<and> c \<le> 0x7A)"
    by (intro exI [of _ s]) (simp add: generatedRow_def)
next
  assume "written (create_handler svc req tbl) tbl row"
  then obtain tt content tgs u where p: "getProp (body req) (js ''tags'') = Some tgs"
    and r: "row = createdRow svc tt content tgs u tbl \<or>
        row = (createdRow svc tt content tgs u tbl)\<lparr>user_id := None\<rparr>"
    unfolding written_def
    using create_handler_inserts create_handler_table by metis
  from r have "tags row = normalizeTags tgs @ [JStr (js ''manual'')]"
    by (auto simp: createdRow_def processTags_def)
  with p show "\<exists>tgs. getProp (body req) (js ''tags'') = Some tgs \<and>
         (\<forall>xs. tgs = JArr xs \<longrightarrow> tags row = xs @ [JStr (js ''manual'')]) \<and>
         (\<forall>s. tgs = JStr s \<longrightarrow>
            tags row =
              map JStr (filter (\<lambda>tag. tag \<noteq> []) (map trim (split 0x2C s))) @
              [JStr (js ''manual'')]) \<and>
         ((\<forall>xs. tgs \<noteq> JArr xs) \<and> (\<forall>s. tgs \<noteq> JStr s) \<longrightarrow>
            tags row = [JStr (js ''manual'')])"
    by (intro exI [of _ tgs]) (cases tgs; simp add: normalizeTags_def)
next
  show "\<forall>l \<in> set (split 0x2C t). 0x2C \<notin> set l" by (simp add: split_no_sep)
next
  show "concat (map ((#) 0x2C) (split 0x2C t)) = 0x2C # t" by (rule split_join)
next
  show "\<exists>pre post. t = pre @ trim t @ post \<and> (\<forall>c \<in> set pre. isWhiteSpace c) \<and>
      (\<forall>c \<in> set post. isWhiteSpace c) \<and>
      (trim t = [] \<or> (\<not> isWhiteSpace (hd (trim t)) \<and> \<not> isWhiteSpace (last (trim t))))"
    by (rule trim_shape)
qed

theorem stored_tags_witness:
  "tags (generatedRow demoServices (js ''Freedom'') (js ''u1'') (js ''# Freedom'')) =
     [JStr (js ''freedom''), JStr (js ''ai-generated'')] \<and>
   tags (createdRow demoServices (js ''My Post'') (js ''Hello'')
           (JArr [JStr (js ''news''), JStr (js ''Tech'')]) (js ''u1'') []) =
     [JStr (js ''news''), JStr (js ''Tech''), JStr (js ''manual'')] \<and>
   tags (createdRow demoServices (js ''My Post'') (js ''Hello'')
           (JStr (js ''a, b,'')) (js ''u1'') []) =
     [JStr (js ''a''), JStr (js ''b''), JStr (js ''manual'')] \<and>
   tags (createdRow demoServices (js ''My Post'') (js ''Hello'') JUndefined (js ''u1'') []) =
     [JStr (js ''manual'')] \<and>
   js ''manual'' = [0x6D, 0x61, 0x6E, 0x75, 0x61, 0x6C] \<and>
   js ''freedom'' = [0x66, 0x72, 0x65, 0x65, 0x64, 0x6F, 0x6D]"
proof -
  let ?g = "generatedRow demoServices (js ''Freedom'') (js ''u1'') (js ''# Freedom'')"
  let ?greq = "wordRequest (Some (js ''Bearer secret'')) (js ''Freedom'')"
  let ?creq = "\<lambda>tgs. createRequest (Some (js ''Bearer secret'')) (js ''My Post'') (js ''Hello'') tgs"
  let ?c = "\<lambda>tgs. createdRow demoServices (js ''My Post'') (js ''Hello'') tgs (js ''u1'') []"
  have ne: "js ''My Post'' \<noteq> []" "js ''Hello'' \<noteq> []" by (simp_all add: js_simps)
  have gw: "written (generate_handler demoServices ?greq []) [] ?g"
    by (rule demo_generate_written [OF validate_Freedom])
  have cw: "written (create_handler demoServices (?creq tgs) []) [] (?c tgs)" for tgs
    by (rule demo_create_written [OF ne])
  from stored_tags [of demoServices ?greq "[]" ?g] gw
  have "tags ?g = [JStr (toLowerCase (trim (js ''Freedom''))), JStr (js ''ai-generated'')]"
    by (auto simp: wordRequest_word)
  then have a: "tags ?g = [JStr (js ''freedom''), JStr (js ''ai-generated'')]"
    by (simp add: string_defs)
  from stored_tags [of demoServices "?creq (JArr [JStr (js ''news''), JStr (js ''Tech'')])" "[]"
      "?c (JArr [JStr (js ''news''), JStr (js ''Tech'')])"] cw
  have b: "tags (?c (JArr [JStr (js ''news''), JStr (js ''Tech'')])) =
     [JStr (js ''news''), JStr (js ''Tech''), JStr (js ''manual'')]"
    by (auto simp: createRequest_props)
  from stored_tags [of demoServices "?creq (JStr (js ''a, b,''))" "[]" "?c (JStr (js ''a, b,''))"] cw
  have "tags (?c (JStr (js ''a, b,''))) =
      map JStr (filter (\<lambda>tag. tag \<noteq> []) (map trim (split 0x2C (js ''a, b,'')))) @
        [JStr (js ''manual'')]"
    by (auto simp: createRequest_props)
  then have c: "tags (?c (JStr (js ''a, b,''))) = [JStr (js ''a''), JStr (js ''b''), JStr (js ''manual'')]"
    by (simp add: string_defs)
  from stored_tags [of demoServices "?creq JUndefined" "[]" "?c JUndefined"] cw
  have d: "tags (?c JUndefined) = [JStr (js ''manual'')]"
    by (auto simp: createRequest_props)
  have e: "js ''manual'' = [0x6D, 0x61, 0x6E, 0x75, 0x61, 0x6C]"
    "js ''freedom'' = [0x66, 0x72, 0x65, 0x65, 0x64, 0x6F, 0x6D]"
    by (simp_all add: js_simps)
  from a b c d e show ?thesis by blast
qed

end
